theory Spec2Isabelle
  imports Main "HOL-Library.Char_ord" "HOL-Library.List_Lexorder" "HOL-Library.Product_Lexorder"
    "HOL-Library.Multiset"
begin

section \<open>Data model (package model)\<close>

text \<open>
  \<^verbatim>\<open>RouteKey\<close>, \<^verbatim>\<open>AuthPolicy\<close> and \<^verbatim>\<open>Config\<close> of package \<^verbatim>\<open>model\<close>.
  A Go string is a byte sequence, here a \<^typ>\<open>string\<close>. The slices \<^verbatim>\<open>Roles\<close> and
  \<^verbatim>\<open>Scopes\<close> are only ever nil or the result of \<^verbatim>\<open>append\<close>, so a list models them
  (\<open>[]\<close> is the nil slice). \<^verbatim>\<open>Policies\<close> is a Go map, a partial function here.
\<close>

record RouteKey =
  Method :: string
  Path :: string

record AuthPolicy =
  RequireAuth :: bool
  Roles :: "string list"
  Scopes :: "string list"

record Config =
  Policies :: "RouteKey \<rightharpoonup> AuthPolicy"

section \<open>Intermediate representation (package parser)\<close>

text \<open>
  \<^verbatim>\<open>securityRequirement\<close> is \<^verbatim>\<open>map[string][]string\<close>. The resolver ranges over it,
  so it is kept as an association list whose order is the order in which the range
  statement visits the entries. A \<^verbatim>\<open>[]securityRequirement\<close> can be nil (no
  \<^verbatim>\<open>security\<close> key) or a possibly empty slice: an \<open>option\<close> of a list. Pointers that
  may be nil are \<open>option\<close>s as well.
\<close>

type_synonym securityRequirement = "(string \<times> string list) list"

record operation =
  Security :: "securityRequirement list option"

record pathItem =
  Get :: "operation option"
  Post :: "operation option"
  Put :: "operation option"
  Delete :: "operation option"
  Patch :: "operation option"
  Options :: "operation option"
  Head :: "operation option"

record openapiRoot =
  Security :: "securityRequirement list option"
  Paths :: "(string \<times> pathItem option) list"

text \<open>
  The errors the parser builds with \<^verbatim>\<open>fmt.Errorf\<close>. Wrapping with \<^verbatim>\<open>%w\<close> keeps the
  cause, so the wrapper for a resolution failure carries method, path and cause.
\<close>

datatype error =
    ReadSpec string
  | UnmarshalSpec string
  | DerivePolicyFor string string error
  | NoBearerAuth

section \<open>Operations\<close>

text \<open>
  \<^verbatim>\<open>(*pathItem).Operations\<close> builds a Go map from the uppercase method name to the
  operation, with one \<^verbatim>\<open>if\<close> statement for each of the seven fields: a field that is
  not nil is stored under its method name. The result is a map, with no order.
\<close>

definition store ::
  "string \<Rightarrow> operation option \<Rightarrow> (string \<rightharpoonup> operation option) \<Rightarrow>
   (string \<rightharpoonup> operation option)" where
  "store method f ops = (case f of None \<Rightarrow> ops | Some op \<Rightarrow> ops(method \<mapsto> Some op))"

definition Operations :: "pathItem \<Rightarrow> (string \<rightharpoonup> operation option)" where
  "Operations p =
     (let ops = Map.empty;
          ops = store ''GET'' (Get p) ops;
          ops = store ''POST'' (Post p) ops;
          ops = store ''PUT'' (Put p) ops;
          ops = store ''DELETE'' (Delete p) ops;
          ops = store ''PATCH'' (Patch p) ops;
          ops = store ''OPTIONS'' (Options p) ops;
          ops = store ''HEAD'' (Head p) ops
      in ops)"

text \<open>
  A \<^verbatim>\<open>range\<close> statement over a Go map visits every entry of the map once, in an order
  that the runtime chooses. The keys of the map of a path item are among the seven
  method names, so the choice for one range is an enumeration of the seven names
  without repetition: a \<open>methodOrder\<close>. The range visits the entries of the map in that
  order; a name that the map does not have is passed over.
\<close>

definition methodNames :: "string list" where
  "methodNames = [''GET'', ''POST'', ''PUT'', ''DELETE'', ''PATCH'', ''OPTIONS'', ''HEAD'']"

typedef methodOrder = "{ks :: string list. distinct ks \<and> set ks = set methodNames}"
  morphisms keys Abs_methodOrder
  by (rule exI [of _ methodNames]) (simp add: methodNames_def)

setup_lifting type_definition_methodOrder

definition rangeMap :: "string list \<Rightarrow> (string \<rightharpoonup> 'v) \<Rightarrow> (string \<times> 'v) list" where
  "rangeMap ks m = concat (map (\<lambda>k. case m k of None \<Rightarrow> [] | Some v \<Rightarrow> [(k, v)]) ks)"

section \<open>derivePolicy\<close>

text \<open>
  The innermost loop of \<^verbatim>\<open>derivePolicy\<close>: every token of the matched list goes to
  \<^verbatim>\<open>Roles\<close> without its first five bytes when \<^verbatim>\<open>len(s) > 5 && s[:5] == "role:"\<close>,
  and to \<^verbatim>\<open>Scopes\<close> unchanged otherwise.
\<close>

fun classify :: "string list \<Rightarrow> AuthPolicy \<Rightarrow> AuthPolicy" where
  "classify [] policy = policy"
| "classify (s # rest) policy =
     (if length s > 5 \<and> take 5 s = ''role:''
      then classify rest (policy\<lparr>Roles := Roles policy @ [drop 5 s]\<rparr>)
      else classify rest (policy\<lparr>Scopes := Scopes policy @ [s]\<rparr>))"

text \<open>
  The loop over the schemes of one requirement object. \<open>Some\<close> is the \<^verbatim>\<open>return\<close> inside
  the loop, \<open>None\<close> means the loop ran to its end.
\<close>

fun scanSchemes :: "securityRequirement \<Rightarrow> AuthPolicy \<Rightarrow> AuthPolicy option" where
  "scanSchemes [] policy = None"
| "scanSchemes ((scheme, scopes) # rest) policy =
     (if scheme = ''BearerAuth''
      then Some (classify scopes (policy\<lparr>RequireAuth := True\<rparr>))
      else scanSchemes rest policy)"

text \<open>The loop over the requirement objects.\<close>

fun scanRequirements :: "securityRequirement list \<Rightarrow> AuthPolicy \<Rightarrow> AuthPolicy option" where
  "scanRequirements [] policy = None"
| "scanRequirements (req # rest) policy =
     (case scanSchemes req policy of
        Some p \<Rightarrow> Some p
      | None \<Rightarrow> scanRequirements rest policy)"

definition publicPolicy :: AuthPolicy where
  "publicPolicy = \<lparr>RequireAuth = False, Roles = [], Scopes = []\<rparr>"

definition effectiveSecurity :: "openapiRoot \<Rightarrow> operation \<Rightarrow> securityRequirement list option" where
  "effectiveSecurity root op =
     (case operation.Security op of
        None \<Rightarrow> openapiRoot.Security root
      | Some s \<Rightarrow> Some s)"

definition derivePolicy :: "openapiRoot \<Rightarrow> operation \<Rightarrow> error + AuthPolicy" where
  "derivePolicy root op =
     (let sec = effectiveSecurity root op in
      if sec \<noteq> None \<and> length (the sec) = 0 then Inr publicPolicy
      else if sec = None then Inr publicPolicy
      else (case scanRequirements (the sec) publicPolicy of
              Some policy \<Rightarrow> Inr policy
            | None \<Rightarrow> Inl NoBearerAuth))"

section \<open>ParseConfig\<close>

text \<open>
  The inner loop of \<^verbatim>\<open>ParseConfig\<close> over \<^verbatim>\<open>item.Operations()\<close> and the outer loop over
  \<^verbatim>\<open>root.Paths\<close>. Both are ranges over Go maps. The list \<^verbatim>\<open>Paths\<close> of the document
  gives the order in which the paths are visited; \<open>order rawPath\<close> is the order in
  which the inner loop for the path \<open>rawPath\<close> visits the method names. The first
  failing \<^verbatim>\<open>derivePolicy\<close> ends the run.
\<close>

fun parseOperations ::
  "openapiRoot \<Rightarrow> string \<Rightarrow> (string \<times> operation option) list \<Rightarrow>
   (RouteKey \<rightharpoonup> AuthPolicy) \<Rightarrow> error + (RouteKey \<rightharpoonup> AuthPolicy)" where
  "parseOperations root rawPath [] policies = Inr policies"
| "parseOperations root rawPath ((method, None) # rest) policies =
     parseOperations root rawPath rest policies"
| "parseOperations root rawPath ((method, Some op) # rest) policies =
     (case derivePolicy root op of
        Inl err \<Rightarrow> Inl (DerivePolicyFor method rawPath err)
      | Inr policy \<Rightarrow>
          parseOperations root rawPath rest
            (policies(\<lparr>Method = method, Path = rawPath\<rparr> \<mapsto> policy)))"

fun parsePaths ::
  "openapiRoot \<Rightarrow> (string \<Rightarrow> methodOrder) \<Rightarrow> (string \<times> pathItem option) list \<Rightarrow>
   (RouteKey \<rightharpoonup> AuthPolicy) \<Rightarrow> error + (RouteKey \<rightharpoonup> AuthPolicy)" where
  "parsePaths root order [] policies = Inr policies"
| "parsePaths root order ((rawPath, None) # rest) policies = parsePaths root order rest policies"
| "parsePaths root order ((rawPath, Some item) # rest) policies =
     (case parseOperations root rawPath (rangeMap (keys (order rawPath)) (Operations item))
             policies of
        Inl err \<Rightarrow> Inl err
      | Inr policies' \<Rightarrow> parsePaths root order rest policies')"

text \<open>
  \<^verbatim>\<open>ParseConfig\<close>. \<^verbatim>\<open>os.ReadFile\<close> and \<^verbatim>\<open>yaml.Unmarshal\<close> are library calls and are
  parameters of the model: each returns an error message or its result. The order of
  the inner ranges, chosen by the runtime, is a parameter as well.
\<close>

definition ParseConfig ::
  "(string \<Rightarrow> string + string) \<Rightarrow> (string \<Rightarrow> string + openapiRoot) \<Rightarrow>
   (string \<Rightarrow> methodOrder) \<Rightarrow> string \<Rightarrow> error + Config" where
  "ParseConfig readFile unmarshal order path =
     (case readFile path of
        Inl err \<Rightarrow> Inl (ReadSpec err)
      | Inr data \<Rightarrow>
          (case unmarshal data of
             Inl err \<Rightarrow> Inl (UnmarshalSpec err)
           | Inr root \<Rightarrow>
               (case parsePaths root order (Paths root) Map.empty of
                  Inl err \<Rightarrow> Inl err
                | Inr policies \<Rightarrow> Inr \<lparr>Policies = policies\<rparr>)))"

section \<open>Notions used to state the properties\<close>

text \<open>The test of line 136 of the parser, \<^verbatim>\<open>len(s) > 5 && s[:5] == "role:"\<close>.\<close>

definition roleToken :: "string \<Rightarrow> bool" where
  "roleToken s = (length s > 5 \<and> take 5 s = ''role:'')"

text \<open>
  The struct tags of \<^verbatim>\<open>pathItem\<close>: the field that the YAML key \<open>m\<close> of a path item is
  decoded into (no field for any other key), and the seven keys that have one.
\<close>

definition yamlField :: "string \<Rightarrow> pathItem \<Rightarrow> operation option" where
  "yamlField m p =
     (if m = ''get'' then Get p
      else if m = ''post'' then Post p
      else if m = ''put'' then Put p
      else if m = ''delete'' then Delete p
      else if m = ''patch'' then Patch p
      else if m = ''options'' then Options p
      else if m = ''head'' then Head p
      else None)"

definition methods :: "string list" where
  "methods = [''get'', ''post'', ''put'', ''delete'', ''patch'', ''options'', ''head'']"

text \<open>ASCII upper case of a byte and of a string.\<close>

definition upper :: "char \<Rightarrow> char" where
  "upper c =
     (case map_of (zip ''abcdefghijklmnopqrstuvwxyz'' ''ABCDEFGHIJKLMNOPQRSTUVWXYZ'') c of
        Some u \<Rightarrow> u
      | None \<Rightarrow> c)"

definition toUpper :: "string \<Rightarrow> string" where
  "toUpper s = map upper s"

text \<open>
  The declared operations of a document: every (YAML method key, path) with a non-nil
  path item that has a non-nil operation under that key, path by path.
\<close>

definition declaredIn :: "string \<Rightarrow> pathItem option \<Rightarrow> (string \<times> string) list" where
  "declaredIn rawPath item =
     (case item of
        None \<Rightarrow> []
      | Some it \<Rightarrow> map (\<lambda>m. (m, rawPath)) (filter (\<lambda>m. yamlField m it \<noteq> None) methods))"

definition declared :: "openapiRoot \<Rightarrow> (string \<times> string) list" where
  "declared root = concat (map (\<lambda>(rawPath, item). declaredIn rawPath item) (Paths root))"

text \<open>The key of a declared operation: the method in upper case, the path as it is.\<close>

definition keyOf :: "string \<times> string \<Rightarrow> RouteKey" where
  "keyOf d = \<lparr>Method = toUpper (fst d), Path = snd d\<rparr>"

text \<open>
  The operations for which the body of the inner loop of \<^verbatim>\<open>ParseConfig\<close> runs, each
  with the key it is stored under, in the order of the visit; and the two nested loops
  as one loop over that list.
\<close>

definition visitedIn :: "string \<Rightarrow> (string \<times> operation option) list \<Rightarrow> (RouteKey \<times> operation) list" where
  "visitedIn rawPath es =
     concat (map (\<lambda>(method, op).
       case op of None \<Rightarrow> [] | Some x \<Rightarrow> [(\<lparr>Method = method, Path = rawPath\<rparr>, x)]) es)"

definition visited ::
  "(string \<Rightarrow> methodOrder) \<Rightarrow> (string \<times> pathItem option) list \<Rightarrow>
   (RouteKey \<times> operation) list" where
  "visited order ps =
     concat (map (\<lambda>(rawPath, item).
       case item of
         None \<Rightarrow> []
       | Some it \<Rightarrow> visitedIn rawPath (rangeMap (keys (order rawPath)) (Operations it))) ps)"

fun resolveAll ::
  "openapiRoot \<Rightarrow> (RouteKey \<times> operation) list \<Rightarrow>
   (RouteKey \<rightharpoonup> AuthPolicy) \<Rightarrow> error + (RouteKey \<rightharpoonup> AuthPolicy)" where
  "resolveAll root [] policies = Inr policies"
| "resolveAll root ((key, op) # rest) policies =
     (case derivePolicy root op of
        Inl err \<Rightarrow> Inl (DerivePolicyFor (Method key) (Path key) err)
      | Inr policy \<Rightarrow> resolveAll root rest (policies(key \<mapsto> policy)))"

text \<open>
  Two documents that differ at most in the token lists of schemes other than
  \<^verbatim>\<open>BearerAuth\<close>: requirement objects correspond one to one, with the same scheme names
  and the same \<^verbatim>\<open>BearerAuth\<close> tokens; everything else is equal.
\<close>

definition sameRequirement :: "securityRequirement \<Rightarrow> securityRequirement \<Rightarrow> bool" where
  "sameRequirement req req' =
     (fst ` set req = fst ` set req' \<and> map_of req ''BearerAuth'' = map_of req' ''BearerAuth'')"

definition sameSecurity ::
  "securityRequirement list option \<Rightarrow> securityRequirement list option \<Rightarrow> bool" where
  "sameSecurity sec sec' = rel_option (list_all2 sameRequirement) sec sec'"

definition sameOperation :: "operation option \<Rightarrow> operation option \<Rightarrow> bool" where
  "sameOperation op op' =
     rel_option (\<lambda>x y. sameSecurity (operation.Security x) (operation.Security y)) op op'"

definition samePathItem :: "pathItem \<Rightarrow> pathItem \<Rightarrow> bool" where
  "samePathItem p p' =
     (sameOperation (Get p) (Get p') \<and> sameOperation (Post p) (Post p') \<and>
      sameOperation (Put p) (Put p') \<and> sameOperation (Delete p) (Delete p') \<and>
      sameOperation (Patch p) (Patch p') \<and> sameOperation (Options p) (Options p') \<and>
      sameOperation (Head p) (Head p'))"

definition sameDocument :: "openapiRoot \<Rightarrow> openapiRoot \<Rightarrow> bool" where
  "sameDocument r r' =
     (sameSecurity (openapiRoot.Security r) (openapiRoot.Security r') \<and>
      list_all2 (\<lambda>(p, it) (p', it'). p = p' \<and> rel_option samePathItem it it')
        (Paths r) (Paths r'))"

section \<open>Example documents\<close>

text \<open>
  The document of \<^verbatim>\<open>TestParseConfig_Basic\<close>, as far as the test reads it: a public
  route, a route for any authenticated user, a route for the role \<^verbatim>\<open>admin\<close> and a route
  with the scope \<^verbatim>\<open>vegetable:write\<close>. Then a document with two operations whose only
  scheme is not \<^verbatim>\<open>BearerAuth\<close>.
\<close>

definition emptyItem :: pathItem where
  "emptyItem = \<lparr>Get = None, Post = None, Put = None, Delete = None, Patch = None,
                Options = None, Head = None\<rparr>"

definition bearer :: "string list \<Rightarrow> operation" where
  "bearer ts = \<lparr>operation.Security = Some [[(''BearerAuth'', ts)]]\<rparr>"

definition apiKeyOnly :: operation where
  "apiKeyOnly = \<lparr>operation.Security = Some [[(''ApiKeyAuth'', [])]]\<rparr>"

definition basicSpec :: openapiRoot where
  "basicSpec =
     \<lparr>openapiRoot.Security = None,
      Paths =
        [(''/public'', Some (emptyItem\<lparr>Get := Some \<lparr>operation.Security = None\<rparr>\<rparr>)),
         (''/user'', Some (emptyItem\<lparr>Get := Some (bearer [])\<rparr>)),
         (''/admin'', Some (emptyItem\<lparr>Delete := Some (bearer [''role:admin''])\<rparr>)),
         (''/scoped'', Some (emptyItem\<lparr>Post := Some (bearer [''vegetable:write''])\<rparr>))]\<rparr>"

definition twoOffenders :: openapiRoot where
  "twoOffenders =
     \<lparr>openapiRoot.Security = None,
      Paths =
        [(''/a'', Some (emptyItem\<lparr>Get := Some apiKeyOnly\<rparr>)),
         (''/b'', Some (emptyItem\<lparr>Get := Some apiKeyOnly\<rparr>))]\<rparr>"

text \<open>
  Two orders for the inner ranges, the same for every path: the order of the \<^verbatim>\<open>if\<close>
  statements of \<^verbatim>\<open>Operations\<close>, and one that visits \<^verbatim>\<open>POST\<close> before \<^verbatim>\<open>GET\<close>. Then a
  document with one path whose \<^verbatim>\<open>get\<close> and \<^verbatim>\<open>post\<close> both name only an API key scheme.
\<close>

lift_definition inSourceOrder :: "string \<Rightarrow> methodOrder" is
  "\<lambda>rawPath. [''GET'', ''POST'', ''PUT'', ''DELETE'', ''PATCH'', ''OPTIONS'', ''HEAD'']"
  by (auto simp: methodNames_def)

lift_definition postFirst :: "string \<Rightarrow> methodOrder" is
  "\<lambda>rawPath. [''POST'', ''GET'', ''HEAD'', ''OPTIONS'', ''PATCH'', ''DELETE'', ''PUT'']"
  by (auto simp: methodNames_def)

definition getAndPost :: openapiRoot where
  "getAndPost =
     \<lparr>openapiRoot.Security = None,
      Paths = [(''/a'', Some (emptyItem\<lparr>Get := Some apiKeyOnly, Post := Some apiKeyOnly\<rparr>))]\<rparr>"

text \<open>
  A file system in which every file can be read (its content is its name), and a
  decoder that yields the given document for every content.
\<close>

definition readable :: "string \<Rightarrow> string + string" where
  "readable p = Inr p"

definition decodesTo :: "openapiRoot \<Rightarrow> string \<Rightarrow> string + openapiRoot" where
  "decodesTo r d = Inr r"

text \<open>
  A document for a token list \<open>ts\<close>: the root names only an API key scheme, with the
  tokens \<open>ts\<close>; the one operation names that scheme, with \<open>ts\<close>, next to
  \<^verbatim>\<open>BearerAuth\<close>; a second path has no path item.
\<close>

definition mixedSpec :: "string list \<Rightarrow> openapiRoot" where
  "mixedSpec ts =
     \<lparr>openapiRoot.Security = Some [[(''ApiKeyAuth'', ts)]],
      Paths =
        [(''/mixed'', Some (emptyItem\<lparr>Get := Some \<lparr>operation.Security =
            Some [[(''ApiKeyAuth'', ts), (''BearerAuth'', [''role:admin''])]]\<rparr>\<rparr>)),
         (''/none'', None)]\<rparr>"

section \<open>Serializer\<close>

text \<open>
  Modelled from the spec: \<^verbatim>\<open>generator.Generate\<close> is not among the sources (only its
  test is). The spec asks for: rejection of a namespace identifier that is not a code
  identifier before any output; two type definitions and one binding of the mapping;
  the entries ordered by method, then path, lexicographically; \<^verbatim>\<open>roles\<close> and
  \<^verbatim>\<open>scopes\<close> rendered only when non-empty; strings escaped as source literals. The
  layout follows the generated file shown in the repository's documentation. The
  \<^verbatim>\<open>Config\<close> mapping comes as the list of its entries in the order its iteration
  yields them.
\<close>

definition identStart :: "char \<Rightarrow> bool" where
  "identStart c =
     (c = CHR ''_'' \<or> (CHR ''a'' \<le> c \<and> c \<le> CHR ''z'') \<or> (CHR ''A'' \<le> c \<and> c \<le> CHR ''Z''))"

definition identChar :: "char \<Rightarrow> bool" where
  "identChar c = (identStart c \<or> (CHR ''0'' \<le> c \<and> c \<le> CHR ''9''))"

text \<open>
  Modelled from the spec: a namespace identifier is valid when it is not empty and is
  made of letters, digits and underscores, the first not a digit.
\<close>

definition validIdentifier :: "string \<Rightarrow> bool" where
  "validIdentifier s = (case s of [] \<Rightarrow> False | c # cs \<Rightarrow> identStart c \<and> list_all identChar cs)"

text \<open>
  Modelled from the spec: a string is embedded as a source literal, in double quotes,
  with a backslash before every double quote and every backslash.
\<close>

definition escapeChar :: "char \<Rightarrow> string" where
  "escapeChar c = (if c = CHR 0x22 \<or> c = CHR 0x5C then [CHR 0x5C, c] else [c])"

definition quote :: "string \<Rightarrow> string" where
  "quote s = [CHR 0x22] @ concat (map escapeChar s) @ [CHR 0x22]"

fun joinComma :: "string list \<Rightarrow> string" where
  "joinComma [] = []"
| "joinComma [s] = s"
| "joinComma (s # t # rest) = s @ '', '' @ joinComma (t # rest)"

text \<open>
  Modelled from the spec: a policy is rendered with its flag, and with its roles and
  its scopes only when they are not empty.
\<close>

definition renderList :: "string \<Rightarrow> string list \<Rightarrow> string" where
  "renderList name xs =
     (if xs = [] then []
      else '', '' @ name @ '': []string{'' @ joinComma (map quote xs) @ ''}'')"

definition renderPolicy :: "AuthPolicy \<Rightarrow> string" where
  "renderPolicy p =
     ''{RequireAuth: '' @ (if RequireAuth p then ''true'' else ''false'') @
     renderList ''Roles'' (Roles p) @ renderList ''Scopes'' (Scopes p) @ ''}''"

definition renderEntry :: "RouteKey \<times> AuthPolicy \<Rightarrow> string" where
  "renderEntry e =
     [CHR 0x09] @ ''{Method: '' @ quote (Method (fst e)) @ '', Path: '' @ quote (Path (fst e)) @
     ''}: '' @ renderPolicy (snd e) @ '','' @ [CHR 0x0A]"

text \<open>
  Modelled from the spec: the entries are ordered by method, then path, each compared
  as a byte string in lexicographic order.
\<close>

definition routeOrder :: "RouteKey \<times> AuthPolicy \<Rightarrow> string \<times> string" where
  "routeOrder e = (Method (fst e), Path (fst e))"

definition sortEntries :: "(RouteKey \<times> AuthPolicy) list \<Rightarrow> (RouteKey \<times> AuthPolicy) list" where
  "sortEntries es = sort_key routeOrder es"

text \<open>
  Modelled from the spec: the output declares the two record types and binds the
  mapping; an invalid namespace identifier is rejected before anything is rendered.
\<close>

definition header :: "string \<Rightarrow> string" where
  "header pkg =
     ''package '' @ pkg @ [CHR 0x0A, CHR 0x0A] @
     ''type RouteKey struct {'' @ [CHR 0x0A, CHR 0x09] @ ''Method string'' @
     [CHR 0x0A, CHR 0x09] @ ''Path   string'' @ [CHR 0x0A] @ ''}'' @ [CHR 0x0A, CHR 0x0A] @
     ''type AuthPolicy struct {'' @ [CHR 0x0A, CHR 0x09] @ ''RequireAuth bool'' @
     [CHR 0x0A, CHR 0x09] @ ''Roles       []string'' @
     [CHR 0x0A, CHR 0x09] @ ''Scopes      []string'' @ [CHR 0x0A] @ ''}'' @ [CHR 0x0A, CHR 0x0A] @
     ''var Policies = map[RouteKey]AuthPolicy{'' @ [CHR 0x0A]"

definition Generate :: "string \<Rightarrow> (RouteKey \<times> AuthPolicy) list \<Rightarrow> string + string" where
  "Generate pkg entries =
     (if \<not> validIdentifier pkg then Inl ''invalid package name''
      else Inr (header pkg @ concat (map renderEntry (sortEntries entries)) @ ''}'' @ [CHR 0x0A]))"

text \<open>The entries of the \<^verbatim>\<open>Config\<close> of \<^verbatim>\<open>TestGenerate_MatchesGolden\<close>, as written there.\<close>

definition goldenEntries :: "(RouteKey \<times> AuthPolicy) list" where
  "goldenEntries =
     [(\<lparr>Method = ''GET'', Path = ''/public''\<rparr>, \<lparr>RequireAuth = False, Roles = [], Scopes = []\<rparr>),
      (\<lparr>Method = ''GET'', Path = ''/user''\<rparr>, \<lparr>RequireAuth = True, Roles = [], Scopes = []\<rparr>),
      (\<lparr>Method = ''DELETE'', Path = ''/admin''\<rparr>,
       \<lparr>RequireAuth = True, Roles = [''admin''], Scopes = []\<rparr>),
      (\<lparr>Method = ''POST'', Path = ''/scoped''\<rparr>,
       \<lparr>RequireAuth = True, Roles = [], Scopes = [''vegetable:write'']\<rparr>)]"

section \<open>Facts about the resolver\<close>

lemma classify_RequireAuth: "RequireAuth (classify ts p) = RequireAuth p"
  by (induction ts arbitrary: p) auto

lemma classify_eq:
  "classify ts p = p\<lparr>Roles := Roles p @ map (drop 5) (filter roleToken ts),
                      Scopes := Scopes p @ filter (\<lambda>s. \<not> roleToken s) ts\<rparr>"
  by (induction ts arbitrary: p) (auto simp: roleToken_def)

lemma classify_append:
  "classify (ts @ us) p = classify us (classify ts p)"
  by (induction ts arbitrary: p) auto

lemma scanSchemes_None: "scanSchemes req p = None \<longleftrightarrow> ''BearerAuth'' \<notin> fst ` set req"
  by (induction req p rule: scanSchemes.induct) auto

lemma scanSchemes_Some:
  "scanSchemes req p = Some q \<longleftrightarrow>
     (\<exists>ts. map_of req ''BearerAuth'' = Some ts \<and> q = classify ts (p\<lparr>RequireAuth := True\<rparr>))"
  by (induction req p rule: scanSchemes.induct) auto

lemma scanRequirements_None:
  "scanRequirements sec p = None \<longleftrightarrow> (\<forall>req \<in> set sec. ''BearerAuth'' \<notin> fst ` set req)"
proof (induction sec)
  case Nil
  show ?case by simp
next
  case (Cons req sec)
  show ?case
  proof (cases "scanSchemes req p")
    case None
    then have "''BearerAuth'' \<notin> fst ` set req"
      using scanSchemes_None [of req p] by simp
    with None Cons show ?thesis by simp
  next
    case (Some q)
    then have "''BearerAuth'' \<in> fst ` set req"
      using scanSchemes_None [of req p] by simp
    with Some show ?thesis by simp
  qed
qed

lemma scanRequirements_first:
  "\<forall>req \<in> set pre. ''BearerAuth'' \<notin> fst ` set req \<Longrightarrow> map_of req ''BearerAuth'' = Some ts \<Longrightarrow>
   scanRequirements (pre @ req # post) p = Some (classify ts (p\<lparr>RequireAuth := True\<rparr>))"
proof (induction pre)
  case Nil
  then have "scanSchemes req p = Some (classify ts (p\<lparr>RequireAuth := True\<rparr>))"
    by (simp add: scanSchemes_Some)
  then show ?case by simp
next
  case (Cons a pre)
  then have "scanSchemes a p = None" by (simp add: scanSchemes_None)
  with Cons show ?case by simp
qed

lemma scanSchemes_Some_RequireAuth:
  "scanSchemes req p = Some q \<Longrightarrow> RequireAuth q"
  by (auto simp: scanSchemes_Some classify_RequireAuth)

lemma scanRequirements_Some_RequireAuth:
  "scanRequirements sec p = Some q \<Longrightarrow> RequireAuth q"
  by (induction sec p rule: scanRequirements.induct)
     (auto dest: scanSchemes_Some_RequireAuth split: option.splits)

lemma derivePolicy_cases:
  "derivePolicy root op =
     (case effectiveSecurity root op of
        None \<Rightarrow> Inr publicPolicy
      | Some [] \<Rightarrow> Inr publicPolicy
      | Some (r # rs) \<Rightarrow> (case scanRequirements (r # rs) publicPolicy of
              Some policy \<Rightarrow> Inr policy | None \<Rightarrow> Inl NoBearerAuth))"
  by (simp add: derivePolicy_def Let_def split: option.splits list.splits)

lemma derivePolicy_invariant:
  assumes "derivePolicy root op = Inr p" and "\<not> RequireAuth p"
  shows "Roles p = [] \<and> Scopes p = []"
proof (cases "effectiveSecurity root op")
  case None
  with assms show ?thesis by (auto simp: derivePolicy_cases publicPolicy_def)
next
  case (Some sec)
  show ?thesis
  proof (cases sec)
    case Nil
    with Some assms show ?thesis by (auto simp: derivePolicy_cases publicPolicy_def)
  next
    case (Cons r rs)
    with Some assms have "scanRequirements (r # rs) publicPolicy = Some p"
      by (simp add: derivePolicy_cases split: option.splits)
    with \<open>\<not> RequireAuth p\<close> show ?thesis
      using scanRequirements_Some_RequireAuth by blast
  qed
qed

lemma derivePolicy_error: "derivePolicy root op = Inl e \<Longrightarrow> e = NoBearerAuth"
  by (auto simp: derivePolicy_cases split: option.splits list.splits)

lemma scanRequirements_map_of:
  "scanRequirements sec p =
     (case map_of (concat sec) ''BearerAuth'' of
        None \<Rightarrow> None
      | Some ts \<Rightarrow> Some (classify ts (p\<lparr>RequireAuth := True\<rparr>)))"
proof (induction sec)
  case Nil
  show ?case by simp
next
  case (Cons req sec)
  show ?case
  proof (cases "map_of req ''BearerAuth''")
    case None
    then have "scanSchemes req p = None"
      by (simp add: scanSchemes_None map_of_eq_None_iff)
    with None Cons show ?thesis by (simp add: map_add_def)
  next
    case (Some ts)
    then have "scanSchemes req p = Some (classify ts (p\<lparr>RequireAuth := True\<rparr>))"
      by (simp add: scanSchemes_Some)
    with Some show ?thesis by (simp add: map_add_def)
  qed
qed

lemma bearer_policy:
  "classify ts (publicPolicy\<lparr>RequireAuth := True\<rparr>) =
     \<lparr>RequireAuth = True, Roles = map (drop 5) (filter roleToken ts),
      Scopes = filter (\<lambda>s. \<not> roleToken s) ts\<rparr>"
  by (simp add: classify_eq publicPolicy_def)

lemma derivePolicy_op_level:
  "operation.Security op = Some s \<Longrightarrow> derivePolicy root op = derivePolicy root' op"
  by (simp add: derivePolicy_cases effectiveSecurity_def)

lemma derivePolicy_public:
  "effectiveSecurity root op = None \<or> effectiveSecurity root op = Some [] \<Longrightarrow>
   derivePolicy root op = Inr publicPolicy"
  by (auto simp: derivePolicy_cases)

lemma derivePolicy_Inr_cases:
  assumes "derivePolicy root op = Inr q"
  shows "q = publicPolicy \<or> (\<exists>ts. q = classify ts (publicPolicy\<lparr>RequireAuth := True\<rparr>))"
proof (cases "effectiveSecurity root op")
  case None
  with assms show ?thesis by (simp add: derivePolicy_cases)
next
  case (Some sec)
  show ?thesis
  proof (cases sec)
    case Nil
    with Some assms show ?thesis by (simp add: derivePolicy_cases)
  next
    case (Cons r rs)
    with Some assms have "scanRequirements sec publicPolicy = Some q"
      by (simp add: derivePolicy_cases split: option.splits)
    then show ?thesis
      by (auto simp: scanRequirements_map_of split: option.splits)
  qed
qed

section \<open>Policy resolution\<close>

text \<open>
  C2. The effective security list of an operation is its own list whenever that is
  present, also when it is empty (then the root list plays no role in the result), and
  the root list otherwise. When the effective list is absent or empty the policy is
  public: no authentication, no roles, no scopes. So \<^verbatim>\<open>security: []\<close> on the operation
  gives a public policy whatever the root list is.
\<close>

theorem effective_security_and_public:
  "(operation.Security op = Some s \<longrightarrow>
      effectiveSecurity root op = Some s \<and> derivePolicy root op = derivePolicy root' op) \<and>
   (operation.Security op = None \<longrightarrow>
      effectiveSecurity root op = openapiRoot.Security root \<and>
      derivePolicy root op = derivePolicy root \<lparr>operation.Security = openapiRoot.Security root\<rparr>) \<and>
   (effectiveSecurity root op = None \<or> effectiveSecurity root op = Some [] \<longrightarrow>
      derivePolicy root op = Inr \<lparr>RequireAuth = False, Roles = [], Scopes = []\<rparr>) \<and>
   (operation.Security op = Some [] \<longrightarrow>
      derivePolicy root op = Inr \<lparr>RequireAuth = False, Roles = [], Scopes = []\<rparr>)"
proof -
  have a: "operation.Security op = Some s \<longrightarrow>
      effectiveSecurity root op = Some s \<and> derivePolicy root op = derivePolicy root' op"
    using derivePolicy_op_level [of op s root root'] by (simp add: effectiveSecurity_def)
  have b: "operation.Security op = None \<longrightarrow>
      effectiveSecurity root op = openapiRoot.Security root \<and>
      derivePolicy root op = derivePolicy root \<lparr>operation.Security = openapiRoot.Security root\<rparr>"
    by (cases "openapiRoot.Security root") (simp_all add: derivePolicy_cases effectiveSecurity_def)
  have c: "effectiveSecurity root op = None \<or> effectiveSecurity root op = Some [] \<longrightarrow>
      derivePolicy root op = Inr \<lparr>RequireAuth = False, Roles = [], Scopes = []\<rparr>"
    using derivePolicy_public [of root op] by (simp add: publicPolicy_def)
  have d: "operation.Security op = Some [] \<longrightarrow>
      derivePolicy root op = Inr \<lparr>RequireAuth = False, Roles = [], Scopes = []\<rparr>"
    using derivePolicy_public [of root op] by (simp add: publicPolicy_def effectiveSecurity_def)
  from a b c d show ?thesis by blast
qed

theorem effective_security_and_public_witness:
  "derivePolicy \<lparr>openapiRoot.Security = Some [[(''BearerAuth'', [''role:admin''])]], Paths = []\<rparr>
     \<lparr>operation.Security = Some []\<rparr> =
     Inr \<lparr>RequireAuth = False, Roles = [], Scopes = []\<rparr> \<and>
   derivePolicy \<lparr>openapiRoot.Security = None, Paths = []\<rparr> \<lparr>operation.Security = None\<rparr> =
     Inr \<lparr>RequireAuth = False, Roles = [], Scopes = []\<rparr> \<and>
   effectiveSecurity \<lparr>openapiRoot.Security = Some [[(''BearerAuth'', [])]], Paths = []\<rparr>
     \<lparr>operation.Security = None\<rparr> = Some [[(''BearerAuth'', [])]] \<and>
   effectiveSecurity \<lparr>openapiRoot.Security = Some [[(''BearerAuth'', [])]], Paths = []\<rparr>
     \<lparr>operation.Security = Some [[(''ApiKey'', [])]]\<rparr> = Some [[(''ApiKey'', [])]]"
  using
    effective_security_and_public
      [of "\<lparr>operation.Security = Some []\<rparr>" "[]"
          "\<lparr>openapiRoot.Security = Some [[(''BearerAuth'', [''role:admin''])]], Paths = []\<rparr>"
          "\<lparr>openapiRoot.Security = Some [[(''BearerAuth'', [''role:admin''])]], Paths = []\<rparr>"]
    effective_security_and_public
      [of "\<lparr>operation.Security = None\<rparr>" "[]"
          "\<lparr>openapiRoot.Security = None, Paths = []\<rparr>"
          "\<lparr>openapiRoot.Security = None, Paths = []\<rparr>"]
    effective_security_and_public
      [of "\<lparr>operation.Security = None\<rparr>" "[]"
          "\<lparr>openapiRoot.Security = Some [[(''BearerAuth'', [])]], Paths = []\<rparr>"
          "\<lparr>openapiRoot.Security = Some [[(''BearerAuth'', [])]], Paths = []\<rparr>"]
    effective_security_and_public
      [of "\<lparr>operation.Security = Some [[(''ApiKey'', [])]]\<rparr>" "[[(''ApiKey'', [])]]"
          "\<lparr>openapiRoot.Security = Some [[(''BearerAuth'', [])]], Paths = []\<rparr>"
          "\<lparr>openapiRoot.Security = Some [[(''BearerAuth'', [])]], Paths = []\<rparr>"]
  by simp

text \<open>
  C3, as stated: every token that starts with the role prefix \<^verbatim>\<open>role:\<close> loses the prefix
  and goes to the roles. The token \<^verbatim>\<open>role:\<close> itself starts with the prefix, and the
  resolver puts it, unchanged, among the scopes: the roles stay empty.
\<close>

theorem bare_role_prefix_is_a_scope:
  "take 5 ''role:'' = ''role:'' \<and>
   derivePolicy \<lparr>openapiRoot.Security = None, Paths = []\<rparr>
     \<lparr>operation.Security = Some [[(''BearerAuth'', [''role:''])]]\<rparr> =
     Inr \<lparr>RequireAuth = True, Roles = [], Scopes = [''role:'']\<rparr> \<and>
   derivePolicy \<lparr>openapiRoot.Security = None, Paths = []\<rparr>
     \<lparr>operation.Security = Some [[(''BearerAuth'', [''role:''])]]\<rparr> \<noteq>
     Inr \<lparr>RequireAuth = True, Roles = [[]], Scopes = []\<rparr>"
  by (simp add: derivePolicy_def effectiveSecurity_def publicPolicy_def)

text \<open>
  C3, amended. The tokens of the matched \<^verbatim>\<open>BearerAuth\<close> list are classified one by one,
  in order: a token that starts with \<^verbatim>\<open>role:\<close> and is longer than this prefix is
  appended to the roles without the prefix, any other token is appended unchanged to
  the scopes. Order and duplicates are kept: the roles are the role tokens of the list,
  each without its prefix, and the scopes are the remaining tokens of the list. The
  list \<^verbatim>\<open>["role:admin", "vegetable:write"]\<close> gives the roles \<^verbatim>\<open>["admin"]\<close> and the scopes
  \<^verbatim>\<open>["vegetable:write"]\<close>.
\<close>

theorem token_classification:
  "classify ts p =
     p\<lparr>Roles := Roles p @ map (drop 5) (filter roleToken ts),
       Scopes := Scopes p @ filter (\<lambda>s. \<not> roleToken s) ts\<rparr> \<and>
   (roleToken s \<longrightarrow>
      s = ''role:'' @ drop 5 s \<and>
      classify (ts @ [s]) p = (classify ts p)\<lparr>Roles := Roles (classify ts p) @ [drop 5 s]\<rparr>) \<and>
   (\<not> roleToken s \<longrightarrow>
      classify (ts @ [s]) p = (classify ts p)\<lparr>Scopes := Scopes (classify ts p) @ [s]\<rparr>) \<and>
   (map_of req ''BearerAuth'' = Some ts \<longrightarrow>
      scanSchemes req publicPolicy =
        Some \<lparr>RequireAuth = True, Roles = map (drop 5) (filter roleToken ts),
              Scopes = filter (\<lambda>s. \<not> roleToken s) ts\<rparr>) \<and>
   derivePolicy root
     \<lparr>operation.Security = Some [[(''BearerAuth'', [''role:admin'', ''vegetable:write''])]]\<rparr> =
     Inr \<lparr>RequireAuth = True, Roles = [''admin''], Scopes = [''vegetable:write'']\<rparr>"
proof -
  have a: "classify ts p =
     p\<lparr>Roles := Roles p @ map (drop 5) (filter roleToken ts),
       Scopes := Scopes p @ filter (\<lambda>s. \<not> roleToken s) ts\<rparr>"
    by (rule classify_eq)
  have b: "roleToken s \<longrightarrow> s = ''role:'' @ drop 5 s"
  proof
    assume "roleToken s"
    then have "take 5 s = ''role:''" by (simp add: roleToken_def)
    then have "take 5 s @ drop 5 s = ''role:'' @ drop 5 s" by simp
    then show "s = ''role:'' @ drop 5 s" by (simp only: append_take_drop_id)
  qed
  have c: "roleToken s \<longrightarrow>
      classify (ts @ [s]) p = (classify ts p)\<lparr>Roles := Roles (classify ts p) @ [drop 5 s]\<rparr>"
    by (simp add: classify_append roleToken_def)
  have d: "\<not> roleToken s \<longrightarrow>
      classify (ts @ [s]) p = (classify ts p)\<lparr>Scopes := Scopes (classify ts p) @ [s]\<rparr>"
    by (simp add: classify_append roleToken_def)
  have e: "map_of req ''BearerAuth'' = Some ts \<longrightarrow>
      scanSchemes req publicPolicy =
        Some \<lparr>RequireAuth = True, Roles = map (drop 5) (filter roleToken ts),
              Scopes = filter (\<lambda>s. \<not> roleToken s) ts\<rparr>"
    by (simp add: scanSchemes_Some bearer_policy)
  have f: "derivePolicy root
     \<lparr>operation.Security = Some [[(''BearerAuth'', [''role:admin'', ''vegetable:write''])]]\<rparr> =
     Inr \<lparr>RequireAuth = True, Roles = [''admin''], Scopes = [''vegetable:write'']\<rparr>"
    by (simp add: derivePolicy_def effectiveSecurity_def publicPolicy_def)
  from a b c d e f show ?thesis by blast
qed

theorem token_classification_witness:
  "roleToken ''role:admin'' \<and> \<not> roleToken ''role:'' \<and>
   classify ([''role:a'', ''w'', ''role:a''] @ [''role:admin'']) publicPolicy =
     \<lparr>RequireAuth = False, Roles = [''a'', ''a'', ''admin''], Scopes = [''w'']\<rparr> \<and>
   classify ([''role:a'', ''w'', ''role:a''] @ [''role:'']) publicPolicy =
     \<lparr>RequireAuth = False, Roles = [''a'', ''a''], Scopes = [''w'', ''role:'']\<rparr> \<and>
   map_of [(''ApiKey'', [''k'']), (''BearerAuth'', [''role:a'', ''w'', ''role:a''])] ''BearerAuth'' =
     Some [''role:a'', ''w'', ''role:a''] \<and>
   scanSchemes [(''ApiKey'', [''k'']), (''BearerAuth'', [''role:a'', ''w'', ''role:a''])] publicPolicy =
     Some \<lparr>RequireAuth = True, Roles = [''a'', ''a''], Scopes = [''w'']\<rparr>"
  using
    token_classification
      [of "[''role:a'', ''w'', ''role:a'']" publicPolicy "''role:admin''"
          "[(''ApiKey'', [''k'']), (''BearerAuth'', [''role:a'', ''w'', ''role:a''])]"
          "\<lparr>openapiRoot.Security = None, Paths = []\<rparr>"]
    token_classification
      [of "[''role:a'', ''w'', ''role:a'']" publicPolicy "''role:''"
          "[(''ApiKey'', [''k'']), (''BearerAuth'', [''role:a'', ''w'', ''role:a''])]"
          "\<lparr>openapiRoot.Security = None, Paths = []\<rparr>"]
  by (simp add: roleToken_def publicPolicy_def)

text \<open>
  C4. When the effective security list is non-empty and \<open>req\<close> is its first requirement
  object, in document order, that names \<^verbatim>\<open>BearerAuth\<close>, the policy requires
  authentication and its roles and scopes are those of the \<^verbatim>\<open>BearerAuth\<close> token list of
  \<open>req\<close>. The objects after \<open>req\<close> are not looked at: any other objects in their place,
  naming \<^verbatim>\<open>BearerAuth\<close> or not, give the same policy.
\<close>

theorem first_bearer_requirement_decides:
  assumes "effectiveSecurity root op = Some (pre @ req # post)"
    and "\<forall>r \<in> set pre. ''BearerAuth'' \<notin> fst ` set r"
    and "map_of req ''BearerAuth'' = Some ts"
  shows "derivePolicy root op =
           Inr \<lparr>RequireAuth = True, Roles = map (drop 5) (filter roleToken ts),
                Scopes = filter (\<lambda>s. \<not> roleToken s) ts\<rparr> \<and>
         derivePolicy root \<lparr>operation.Security = Some (pre @ req # post')\<rparr> =
           derivePolicy root op"
proof -
  have scan: "scanRequirements (pre @ req # rest) publicPolicy =
      Some \<lparr>RequireAuth = True, Roles = map (drop 5) (filter roleToken ts),
            Scopes = filter (\<lambda>s. \<not> roleToken s) ts\<rparr>" for rest
    using scanRequirements_first [OF assms(2) assms(3), of rest publicPolicy]
    by (simp add: bearer_policy)
  have ne: "pre @ req # rest \<noteq> []" for rest by simp
  have a: "derivePolicy root op =
           Inr \<lparr>RequireAuth = True, Roles = map (drop 5) (filter roleToken ts),
                Scopes = filter (\<lambda>s. \<not> roleToken s) ts\<rparr>"
    using assms(1) scan [of post] ne [of post]
    by (simp add: derivePolicy_def Let_def)
  have "effectiveSecurity root \<lparr>operation.Security = Some (pre @ req # post')\<rparr> =
          Some (pre @ req # post')"
    by (simp add: effectiveSecurity_def)
  then have b: "derivePolicy root \<lparr>operation.Security = Some (pre @ req # post')\<rparr> =
           Inr \<lparr>RequireAuth = True, Roles = map (drop 5) (filter roleToken ts),
                Scopes = filter (\<lambda>s. \<not> roleToken s) ts\<rparr>"
    using scan [of post'] ne [of post']
    by (simp add: derivePolicy_def Let_def)
  from a b show ?thesis by simp
qed

theorem first_bearer_requirement_decides_witness:
  "effectiveSecurity \<lparr>openapiRoot.Security = None, Paths = []\<rparr>
     \<lparr>operation.Security = Some ([[(''ApiKey'', [''k''])]] @
        [(''OAuth'', []), (''BearerAuth'', [''role:admin'', ''read''])] #
        [[(''BearerAuth'', [''role:root''])]])\<rparr> =
     Some ([[(''ApiKey'', [''k''])]] @
        [(''OAuth'', []), (''BearerAuth'', [''role:admin'', ''read''])] #
        [[(''BearerAuth'', [''role:root''])]]) \<and>
   ''BearerAuth'' \<notin> fst ` set [(''ApiKey'', [''k''])] \<and>
   map_of [(''OAuth'', []), (''BearerAuth'', [''role:admin'', ''read''])] ''BearerAuth'' =
     Some [''role:admin'', ''read''] \<and>
   derivePolicy \<lparr>openapiRoot.Security = None, Paths = []\<rparr>
     \<lparr>operation.Security = Some ([[(''ApiKey'', [''k''])]] @
        [(''OAuth'', []), (''BearerAuth'', [''role:admin'', ''read''])] #
        [[(''BearerAuth'', [''role:root''])]])\<rparr> =
     Inr \<lparr>RequireAuth = True, Roles = [''admin''], Scopes = [''read'']\<rparr> \<and>
   derivePolicy \<lparr>openapiRoot.Security = None, Paths = []\<rparr>
     \<lparr>operation.Security = Some ([[(''ApiKey'', [''k''])]] @
        [(''OAuth'', []), (''BearerAuth'', [''role:admin'', ''read''])] # [])\<rparr> =
     Inr \<lparr>RequireAuth = True, Roles = [''admin''], Scopes = [''read'']\<rparr>"
proof -
  let ?root = "\<lparr>openapiRoot.Security = None, Paths = []\<rparr>"
  let ?pre = "[[(''ApiKey'', [''k''])]]"
  let ?req = "[(''OAuth'', []), (''BearerAuth'', [''role:admin'', ''read''])]"
  let ?post = "[[(''BearerAuth'', [''role:root''])]]"
  let ?op = "\<lparr>operation.Security = Some (?pre @ ?req # ?post)\<rparr>"
  have h1: "effectiveSecurity ?root ?op = Some (?pre @ ?req # ?post)"
    by (simp add: effectiveSecurity_def)
  have h2: "\<forall>r \<in> set ?pre. ''BearerAuth'' \<notin> fst ` set r" by simp
  have h3: "map_of ?req ''BearerAuth'' = Some [''role:admin'', ''read'']" by simp
  show ?thesis
    using h1 h2 h3 first_bearer_requirement_decides [OF h1 h2 h3, of "[]"]
    by (simp add: roleToken_def)
qed

text \<open>
  C9. A token becomes a role only when it is longer than five bytes and starts with
  \<^verbatim>\<open>role:\<close>; then the role is what follows the prefix, and is not empty. Every other
  token is appended unchanged to the scopes: every token of at most five bytes, and so
  the token \<^verbatim>\<open>role:\<close> itself. The roles of a token list are exactly the remainders of
  its tokens that pass the test, and no resolved policy has a role with an empty name.
\<close>

theorem role_needs_a_name:
  "(length s > 5 \<and> take 5 s = ''role:'' \<longrightarrow>
      classify [s] p = p\<lparr>Roles := Roles p @ [drop 5 s]\<rparr> \<and> drop 5 s \<noteq> []) \<and>
   (\<not> (length s > 5 \<and> take 5 s = ''role:'') \<longrightarrow>
      classify [s] p = p\<lparr>Scopes := Scopes p @ [s]\<rparr>) \<and>
   (length s \<le> 5 \<longrightarrow> classify [s] p = p\<lparr>Scopes := Scopes p @ [s]\<rparr>) \<and>
   classify [''role:''] p = p\<lparr>Scopes := Scopes p @ [''role:'']\<rparr> \<and>
   (r \<in> set (Roles (classify ts publicPolicy)) \<longleftrightarrow>
      (\<exists>t \<in> set ts. length t > 5 \<and> take 5 t = ''role:'' \<and> r = drop 5 t)) \<and>
   (derivePolicy root op = Inr q \<longrightarrow> [] \<notin> set (Roles q))"
proof -
  have a: "length s > 5 \<and> take 5 s = ''role:'' \<longrightarrow>
      classify [s] p = p\<lparr>Roles := Roles p @ [drop 5 s]\<rparr> \<and> drop 5 s \<noteq> []"
    by simp
  have b: "\<not> (length s > 5 \<and> take 5 s = ''role:'') \<longrightarrow>
      classify [s] p = p\<lparr>Scopes := Scopes p @ [s]\<rparr>"
    by simp
  have c: "length s \<le> 5 \<longrightarrow> classify [s] p = p\<lparr>Scopes := Scopes p @ [s]\<rparr>"
    by simp
  have d: "classify [''role:''] p = p\<lparr>Scopes := Scopes p @ [''role:'']\<rparr>"
    by simp
  have e: "r \<in> set (Roles (classify ts publicPolicy)) \<longleftrightarrow>
      (\<exists>t \<in> set ts. length t > 5 \<and> take 5 t = ''role:'' \<and> r = drop 5 t)"
    by (auto simp: classify_eq publicPolicy_def roleToken_def)
  have f: "derivePolicy root op = Inr q \<longrightarrow> [] \<notin> set (Roles q)"
  proof
    assume q: "derivePolicy root op = Inr q"
    show "[] \<notin> set (Roles q)"
    proof (cases "q = publicPolicy")
      case True
      then show ?thesis by (simp add: publicPolicy_def)
    next
      case False
      with derivePolicy_Inr_cases [OF q]
      obtain us where "q = classify us (publicPolicy\<lparr>RequireAuth := True\<rparr>)"
        by blast
      then show ?thesis
        by (auto simp: classify_eq publicPolicy_def roleToken_def)
    qed
  qed
  from a b c d e f show ?thesis by blast
qed

theorem role_needs_a_name_witness:
  "length ''role:x'' > 5 \<and> take 5 ''role:x'' = ''role:'' \<and>
   classify [''role:x''] publicPolicy = \<lparr>RequireAuth = False, Roles = [''x''], Scopes = []\<rparr> \<and>
   \<not> (length ''role:'' > 5 \<and> take 5 ''role:'' = ''role:'') \<and> length ''role:'' \<le> 5 \<and>
   classify [''role:''] publicPolicy = \<lparr>RequireAuth = False, Roles = [], Scopes = [''role:'']\<rparr> \<and>
   derivePolicy \<lparr>openapiRoot.Security = None, Paths = []\<rparr>
     \<lparr>operation.Security = Some [[(''BearerAuth'', [''role:'', ''role:x''])]]\<rparr> =
     Inr \<lparr>RequireAuth = True, Roles = [''x''], Scopes = [''role:'']\<rparr> \<and>
   [] \<notin> set (Roles \<lparr>RequireAuth = True, Roles = [''x''], Scopes = [''role:'']\<rparr>)"
proof -
  let ?root = "\<lparr>openapiRoot.Security = None, Paths = []\<rparr>"
  let ?op = "\<lparr>operation.Security = Some [[(''BearerAuth'', [''role:'', ''role:x''])]]\<rparr>"
  let ?q = "\<lparr>RequireAuth = True, Roles = [''x''], Scopes = [''role:'']\<rparr>"
  have h: "derivePolicy ?root ?op = Inr ?q"
    by (simp add: derivePolicy_def effectiveSecurity_def publicPolicy_def)
  show ?thesis
    using h
      role_needs_a_name [of "''role:x''" publicPolicy "''x''" "[''role:x'']" ?root ?op ?q]
      role_needs_a_name [of "''role:''" publicPolicy "''x''" "[''role:'']" ?root ?op ?q]
    by (simp add: publicPolicy_def)
qed

section \<open>Facts about ParseConfig\<close>

lemma parseOperations_resolveAll:
  "parseOperations root rawPath es m = resolveAll root (visitedIn rawPath es) m"
proof (induction es arbitrary: m)
  case Nil
  show ?case by (simp add: visitedIn_def)
next
  case (Cons x es)
  obtain mth opn where x: "x = (mth, opn)" by (cases x)
  have v: "visitedIn rawPath (x # es) =
      (case opn of None \<Rightarrow> [] | Some y \<Rightarrow> [(\<lparr>Method = mth, Path = rawPath\<rparr>, y)]) @
      visitedIn rawPath es"
    by (simp add: visitedIn_def x)
  show ?case
  proof (cases opn)
    case None
    with x v Cons.IH show ?thesis by simp
  next
    case (Some y)
    show ?thesis
    proof (cases "derivePolicy root y")
      case (Inl err)
      with x v Some show ?thesis by simp
    next
      case (Inr policy)
      with x v Some Cons.IH show ?thesis by (simp del: fun_upd_apply)
    qed
  qed
qed

lemma resolveAll_append:
  "resolveAll root (xs @ ys) m =
     (case resolveAll root xs m of Inl e \<Rightarrow> Inl e | Inr m' \<Rightarrow> resolveAll root ys m')"
proof (induction xs arbitrary: m)
  case Nil
  show ?case by simp
next
  case (Cons x xs)
  obtain k op where x: "x = (k, op)" by (cases x)
  show ?case
  proof (cases "derivePolicy root op")
    case (Inl err)
    with x show ?thesis by simp
  next
    case (Inr policy)
    with x Cons.IH show ?thesis by (simp del: fun_upd_apply)
  qed
qed

lemma visited_Cons_None: "visited order ((rawPath, None) # ps) = visited order ps"
  by (simp add: visited_def)

lemma visited_Cons_Some:
  "visited order ((rawPath, Some item) # ps) =
     visitedIn rawPath (rangeMap (keys (order rawPath)) (Operations item)) @ visited order ps"
  by (simp add: visited_def)

lemma parsePaths_resolveAll:
  "parsePaths root order ps m = resolveAll root (visited order ps) m"
proof (induction ps arbitrary: m)
  case Nil
  show ?case by (simp add: visited_def)
next
  case (Cons x ps)
  obtain rawPath item where x: "x = (rawPath, item)" by (cases x)
  show ?case
  proof (cases item)
    case None
    with x Cons.IH show ?thesis by (simp add: visited_Cons_None)
  next
    case (Some it)
    show ?thesis
    proof (cases "resolveAll root (visitedIn rawPath (rangeMap (keys (order rawPath)) (Operations it))) m")
      case (Inl err)
      with x Some show ?thesis
        by (simp add: visited_Cons_Some resolveAll_append parseOperations_resolveAll)
    next
      case (Inr m')
      with x Some Cons.IH [of m'] show ?thesis
        by (simp add: visited_Cons_Some resolveAll_append parseOperations_resolveAll)
    qed
  qed
qed

lemma resolveAll_Cons_Inr:
  assumes "resolveAll root ((k, op) # xs) m = Inr m'"
  obtains policy where "derivePolicy root op = Inr policy"
    and "resolveAll root xs (m(k \<mapsto> policy)) = Inr m'"
  using assms by (cases "derivePolicy root op") (simp_all del: fun_upd_apply)

lemma resolveAll_Inr_all:
  "resolveAll root xs m = Inr m' \<Longrightarrow> (k, op) \<in> set xs \<Longrightarrow> \<exists>pol. derivePolicy root op = Inr pol"
proof (induction xs arbitrary: m)
  case Nil
  then show ?case by simp
next
  case (Cons x xs)
  obtain k' op' where x: "x = (k', op')" by (cases x)
  from Cons.prems(1) x obtain policy where d: "derivePolicy root op' = Inr policy"
    and r: "resolveAll root xs (m(k' \<mapsto> policy)) = Inr m'"
    by (blast elim: resolveAll_Cons_Inr)
  show ?case
  proof (cases "(k, op) = x")
    case True
    with x d show ?thesis by auto
  next
    case False
    with Cons.prems(2) have "(k, op) \<in> set xs" by simp
    from Cons.IH [OF r this] show ?thesis .
  qed
qed

lemma resolveAll_Inr_dom:
  "resolveAll root xs m = Inr m' \<Longrightarrow> dom m' = dom m \<union> fst ` set xs"
proof (induction xs arbitrary: m)
  case Nil
  then show ?case by simp
next
  case (Cons x xs)
  obtain k' op' where x: "x = (k', op')" by (cases x)
  from Cons.prems(1) x obtain policy where d: "derivePolicy root op' = Inr policy"
    and r: "resolveAll root xs (m(k' \<mapsto> policy)) = Inr m'"
    by (blast elim: resolveAll_Cons_Inr)
  from Cons.IH [OF r] x show ?case by auto
qed

lemma resolveAll_Inr_value:
  "resolveAll root xs m = Inr m' \<Longrightarrow> m' k = Some pol \<Longrightarrow>
   m k = Some pol \<or> (\<exists>op. (k, op) \<in> set xs \<and> derivePolicy root op = Inr pol)"
proof (induction xs arbitrary: m)
  case Nil
  then show ?case by simp
next
  case (Cons x rest)
  obtain key op where x: "x = (key, op)" by (cases x)
  from Cons.prems(1) x obtain policy where d: "derivePolicy root op = Inr policy"
    and r: "resolveAll root rest (m(key \<mapsto> policy)) = Inr m'"
    by (blast elim: resolveAll_Cons_Inr)
  from Cons.IH [OF r Cons.prems(2)]
  have "(m(key \<mapsto> policy)) k = Some pol \<or>
        (\<exists>op'. (k, op') \<in> set rest \<and> derivePolicy root op' = Inr pol)" .
  then show ?case
  proof
    assume "(m(key \<mapsto> policy)) k = Some pol"
    then show ?thesis using d x by (cases "k = key") auto
  next
    assume "\<exists>op'. (k, op') \<in> set rest \<and> derivePolicy root op' = Inr pol"
    then show ?thesis by auto
  qed
qed

lemma resolveAll_total:
  "(\<And>k op. (k, op) \<in> set xs \<Longrightarrow> \<exists>pol. derivePolicy root op = Inr pol) \<Longrightarrow>
   \<exists>m'. resolveAll root xs m = Inr m'"
proof (induction xs arbitrary: m)
  case Nil
  show ?case by simp
next
  case (Cons x xs)
  obtain k op where x: "x = (k, op)" by (cases x)
  with Cons.prems [of k op] obtain pol where d: "derivePolicy root op = Inr pol" by auto
  have "\<exists>m'. resolveAll root xs (m(k \<mapsto> pol)) = Inr m'"
    by (rule Cons.IH) (use Cons.prems in auto)
  with x d show ?case by (simp del: fun_upd_apply)
qed

lemma resolveAll_first_failure:
  assumes "\<And>k' op'. (k', op') \<in> set pre \<Longrightarrow> \<exists>pol. derivePolicy root op' = Inr pol"
    and "derivePolicy root op = Inl err"
  shows "resolveAll root (pre @ (k, op) # post) m = Inl (DerivePolicyFor (Method k) (Path k) err)"
proof -
  from resolveAll_total [of pre root m] assms(1)
  obtain m' where "resolveAll root pre m = Inr m'" by blast
  with assms(2) show ?thesis by (simp add: resolveAll_append)
qed

lemma resolveAll_Inl:
  "resolveAll root xs m = Inl e \<Longrightarrow>
   \<exists>k op. (k, op) \<in> set xs \<and> derivePolicy root op = Inl NoBearerAuth \<and>
          e = DerivePolicyFor (Method k) (Path k) NoBearerAuth"
proof (induction xs arbitrary: m)
  case Nil
  then show ?case by simp
next
  case (Cons x rest)
  obtain key op where x: "x = (key, op)" by (cases x)
  show ?case
  proof (cases "derivePolicy root op")
    case (Inl err)
    then have "err = NoBearerAuth" by (rule derivePolicy_error)
    with Inl Cons.prems x show ?thesis by auto
  next
    case (Inr policy)
    with Cons.prems x have "resolveAll root rest (m(key \<mapsto> policy)) = Inl e"
      by (simp del: fun_upd_apply)
    from Cons.IH [OF this] x show ?thesis by auto
  qed
qed

lemma resolveAll_fails:
  assumes "(k, op) \<in> set xs" and "derivePolicy root op = Inl err"
  shows "\<exists>e. resolveAll root xs m = Inl e"
proof (cases "resolveAll root xs m")
  case (Inl e)
  then show ?thesis by simp
next
  case (Inr m')
  from resolveAll_Inr_all [OF Inr assms(1)] assms(2) show ?thesis by simp
qed

lemma ParseConfig_loaded:
  "readFile path = Inr data \<Longrightarrow> unmarshal data = Inr root \<Longrightarrow>
   ParseConfig readFile unmarshal order path =
     (case resolveAll root (visited order (Paths root)) Map.empty of
        Inl err \<Rightarrow> Inl err
      | Inr policies \<Rightarrow> Inr \<lparr>Policies = policies\<rparr>)"
  by (simp add: ParseConfig_def parsePaths_resolveAll)

lemma ParseConfig_Inr:
  "ParseConfig readFile unmarshal order path = Inr cfg \<Longrightarrow>
   \<exists>data root. readFile path = Inr data \<and> unmarshal data = Inr root \<and>
     resolveAll root (visited order (Paths root)) Map.empty = Inr (Policies cfg)"
  by (auto simp: ParseConfig_def parsePaths_resolveAll split: sum.splits)

lemma no_bearer_fails:
  assumes "effectiveSecurity root op = Some sec" and "sec \<noteq> []"
    and "\<forall>req \<in> set sec. ''BearerAuth'' \<notin> fst ` set req"
  shows "derivePolicy root op = Inl NoBearerAuth"
proof -
  from assms(3) have "scanRequirements sec publicPolicy = None"
    by (simp add: scanRequirements_None)
  with assms(1,2) show ?thesis by (simp add: derivePolicy_def Let_def)
qed


lemma first_failure_split:
  assumes "(k, op) \<in> set xs" and "derivePolicy root op = Inl err"
  obtains pre k' op' post where "xs = pre @ (k', op') # post"
    and "derivePolicy root op' = Inl NoBearerAuth"
    and "\<forall>(j, o') \<in> set pre. \<exists>pol. derivePolicy root o' = Inr pol"
proof -
  let ?P = "\<lambda>x. derivePolicy root (snd x) = Inl NoBearerAuth"
  from assms(2) have "err = NoBearerAuth" by (rule derivePolicy_error)
  with assms have "\<exists>x \<in> set xs. ?P x" by force
  from split_list_first_prop [OF this]
  obtain pre x post where xs: "xs = pre @ x # post" and px: "?P x"
    and npre: "\<forall>y \<in> set pre. \<not> ?P y"
    by blast
  have "\<forall>(j, o') \<in> set pre. \<exists>pol. derivePolicy root o' = Inr pol"
  proof (clarify)
    fix j o'
    assume "(j, o') \<in> set pre"
    with npre have n: "derivePolicy root o' \<noteq> Inl NoBearerAuth" by force
    show "\<exists>pol. derivePolicy root o' = Inr pol"
    proof (cases "derivePolicy root o'")
      case (Inl e)
      with derivePolicy_error [OF Inl] n show ?thesis by simp
    next
      case (Inr pol)
      then show ?thesis by simp
    qed
  qed
  with xs px that [of pre "fst x" "snd x" post] show thesis by simp
qed


section \<open>The map of a path item and its ranges\<close>

lemma store_apply:
  "store k f ops x = (if x = k \<and> f \<noteq> None then Some f else ops x)"
  by (cases f) (simp_all add: store_def)

lemma Operations_apply:
  "Operations it k =
     (if k = ''HEAD'' \<and> Head it \<noteq> None then Some (Head it)
      else if k = ''OPTIONS'' \<and> Options it \<noteq> None then Some (Options it)
      else if k = ''PATCH'' \<and> Patch it \<noteq> None then Some (Patch it)
      else if k = ''DELETE'' \<and> Delete it \<noteq> None then Some (Delete it)
      else if k = ''PUT'' \<and> Put it \<noteq> None then Some (Put it)
      else if k = ''POST'' \<and> Post it \<noteq> None then Some (Post it)
      else if k = ''GET'' \<and> Get it \<noteq> None then Some (Get it)
      else None)"
  by (simp add: Operations_def Let_def store_apply)

lemma toUpper_methods:
  "toUpper ''get'' = ''GET''" "toUpper ''post'' = ''POST''" "toUpper ''put'' = ''PUT''"
  "toUpper ''delete'' = ''DELETE''" "toUpper ''patch'' = ''PATCH''"
  "toUpper ''options'' = ''OPTIONS''" "toUpper ''head'' = ''HEAD''"
  by (simp_all add: toUpper_def upper_def)

lemma yamlField_methods:
  "yamlField ''get'' it = Get it" "yamlField ''post'' it = Post it"
  "yamlField ''put'' it = Put it" "yamlField ''delete'' it = Delete it"
  "yamlField ''patch'' it = Patch it" "yamlField ''options'' it = Options it"
  "yamlField ''head'' it = Head it"
  by (simp_all add: yamlField_def)

lemma Operations_Some_iff:
  "Operations it k = Some (Some op) \<longleftrightarrow>
     (\<exists>m \<in> set methods. toUpper m = k \<and> yamlField m it = Some op)"
  by (auto simp: Operations_apply methods_def toUpper_methods yamlField_methods
           split: if_splits)

lemma Operations_Some_Some: "Operations it k = Some f \<Longrightarrow> \<exists>op. f = Some op"
  by (cases f) (auto simp: Operations_apply split: if_splits)

lemma Operations_methodNames: "Operations it k = Some f \<Longrightarrow> k \<in> set methodNames"
  by (auto simp: Operations_apply methodNames_def split: if_splits)

lemma methodNames_toUpper: "methodNames = map toUpper methods"
  by (simp add: methodNames_def methods_def toUpper_methods)

lemma keys_visitedIn_rangeMap:
  "map fst (visitedIn rawPath (rangeMap ks m)) =
     map (\<lambda>k. \<lparr>Method = k, Path = rawPath\<rparr>) (filter (\<lambda>k. \<exists>op. m k = Some (Some op)) ks)"
proof (induction ks)
  case Nil
  show ?case by (simp add: rangeMap_def visitedIn_def)
next
  case (Cons k ks)
  have split: "visitedIn rawPath (rangeMap (k # ks) m) =
      visitedIn rawPath (rangeMap [k] m) @ visitedIn rawPath (rangeMap ks m)"
    by (simp add: rangeMap_def visitedIn_def)
  have one: "map fst (visitedIn rawPath (rangeMap [k] m)) =
      map (\<lambda>k. \<lparr>Method = k, Path = rawPath\<rparr>) (filter (\<lambda>k. \<exists>op. m k = Some (Some op)) [k])"
  proof (cases "m k")
    case None
    then show ?thesis by (simp add: rangeMap_def visitedIn_def)
  next
    case (Some f)
    then show ?thesis by (cases f) (simp_all add: rangeMap_def visitedIn_def)
  qed
  from split one Cons.IH show ?case by simp
qed

lemma set_visitedIn_rangeMap:
  "set (visitedIn rawPath (rangeMap ks m)) =
     {(\<lparr>Method = k, Path = rawPath\<rparr>, op) | k op. k \<in> set ks \<and> m k = Some (Some op)}"
proof (induction ks)
  case Nil
  show ?case by (simp add: rangeMap_def visitedIn_def)
next
  case (Cons k ks)
  have split: "visitedIn rawPath (rangeMap (k # ks) m) =
      visitedIn rawPath (rangeMap [k] m) @ visitedIn rawPath (rangeMap ks m)"
    by (simp add: rangeMap_def visitedIn_def)
  have one: "set (visitedIn rawPath (rangeMap [k] m)) =
      {(\<lparr>Method = k, Path = rawPath\<rparr>, op) | op. m k = Some (Some op)}"
  proof (cases "m k")
    case None
    then show ?thesis by (simp add: rangeMap_def visitedIn_def)
  next
    case (Some f)
    then show ?thesis by (cases f) (simp_all add: rangeMap_def visitedIn_def)
  qed
  from split one Cons.IH show ?case by auto
qed


lemma declaredIn_snd: "d \<in> set (declaredIn rawPath item) \<Longrightarrow> snd d = rawPath"
  by (cases item) (auto simp: declaredIn_def)

lemma declaredIn_fst: "d \<in> set (declaredIn rawPath item) \<Longrightarrow> fst d \<in> set methods"
  by (cases item) (auto simp: declaredIn_def)

lemma distinct_declaredIn: "distinct (declaredIn rawPath item)"
proof (cases item)
  case None
  then show ?thesis by (simp add: declaredIn_def)
next
  case (Some it)
  have "distinct methods" by (simp add: methods_def)
  then have "distinct (filter (\<lambda>m. yamlField m it \<noteq> None) methods)" by simp
  then show ?thesis
    using Some by (simp add: declaredIn_def distinct_map inj_on_def)
qed

lemma declared_concat_snd:
  "d \<in> set (concat (map (\<lambda>(p, item). declaredIn p item) ps)) \<Longrightarrow> snd d \<in> fst ` set ps"
  by (induction ps) (auto dest: declaredIn_snd)

lemma distinct_declared_concat:
  "distinct (map fst ps) \<Longrightarrow> distinct (concat (map (\<lambda>(p, item). declaredIn p item) ps))"
proof (induction ps)
  case Nil
  show ?case by simp
next
  case (Cons x ps)
  obtain rawPath item where x: "x = (rawPath, item)" by (cases x)
  from Cons.prems x have notin: "rawPath \<notin> fst ` set ps" and d: "distinct (map fst ps)"
    by auto
  have "set (declaredIn rawPath item) \<inter>
        set (concat (map (\<lambda>(p, item). declaredIn p item) ps)) = {}"
  proof (rule ccontr)
    assume "set (declaredIn rawPath item) \<inter>
        set (concat (map (\<lambda>(p, item). declaredIn p item) ps)) \<noteq> {}"
    then obtain e where e1: "e \<in> set (declaredIn rawPath item)"
      and e2: "e \<in> set (concat (map (\<lambda>(p, item). declaredIn p item) ps))"
      by blast
    from declaredIn_snd [OF e1] declared_concat_snd [OF e2] notin show False by simp
  qed
  with Cons.IH [OF d] distinct_declaredIn [of rawPath item] x show ?case by simp
qed

lemma keyOf_inj_on_declared:
  "inj_on keyOf (set (concat (map (\<lambda>(p, item). declaredIn p item) ps)))"
proof (rule inj_onI)
  fix a b
  assume a: "a \<in> set (concat (map (\<lambda>(p, item). declaredIn p item) ps))"
    and b: "b \<in> set (concat (map (\<lambda>(p, item). declaredIn p item) ps))"
    and eq: "keyOf a = keyOf b"
  have "distinct (map toUpper methods)"
    by (simp add: methods_def toUpper_methods)
  then have inj: "inj_on toUpper (set methods)" by (simp add: distinct_map)
  from a have am: "fst a \<in> set methods" by (auto dest: declaredIn_fst)
  from b have bm: "fst b \<in> set methods" by (auto dest: declaredIn_fst)
  from eq have "toUpper (fst a) = toUpper (fst b)" and s: "snd a = snd b"
    by (simp_all add: keyOf_def)
  with inj am bm have "fst a = fst b" by (auto dest: inj_onD)
  with s show "a = b" by (simp add: prod_eq_iff)
qed


lemma keys_methodOrder: "distinct (keys q)" "set (keys q) = set methodNames"
  using keys [of q] by simp_all

lemma keys_item_mset:
  assumes "distinct ks" and "set methodNames \<subseteq> set ks"
  shows "mset (map fst (visitedIn rawPath (rangeMap ks (Operations it)))) =
         mset (map keyOf (declaredIn rawPath (Some it)))"
proof -
  let ?P = "\<lambda>k. \<exists>op. Operations it k = Some (Some op)"
  let ?L = "map (\<lambda>k. \<lparr>Method = k, Path = rawPath\<rparr>) (filter ?P ks)"
  let ?R = "map keyOf (declaredIn rawPath (Some it))"
  have dl: "distinct ?L"
    using assms(1) by (simp add: distinct_map inj_on_def)
  have "inj_on keyOf (set (declaredIn rawPath (Some it)))"
    using keyOf_inj_on_declared [of "[(rawPath, Some it)]"] by simp
  with distinct_declaredIn [of rawPath "Some it"] have dr: "distinct ?R"
    by (simp add: distinct_map)
  have sl: "set ?L = set ?R"
  proof
    show "set ?L \<subseteq> set ?R"
    proof
      fix x
      assume "x \<in> set ?L"
      then obtain k op where x: "x = \<lparr>Method = k, Path = rawPath\<rparr>"
        and o: "Operations it k = Some (Some op)"
        by auto
      from o obtain m where "m \<in> set methods" and "toUpper m = k"
        and "yamlField m it = Some op"
        by (auto simp: Operations_Some_iff)
      then have "(m, rawPath) \<in> set (declaredIn rawPath (Some it))"
        by (simp add: declaredIn_def)
      then have "keyOf (m, rawPath) \<in> set ?R" by simp
      with x \<open>toUpper m = k\<close> show "x \<in> set ?R" by (simp add: keyOf_def)
    qed
    show "set ?R \<subseteq> set ?L"
    proof
      fix x
      assume "x \<in> set ?R"
      then obtain m where m: "m \<in> set methods" and y: "yamlField m it \<noteq> None"
        and x: "x = keyOf (m, rawPath)"
        by (auto simp: declaredIn_def)
      from y obtain op where "yamlField m it = Some op" by auto
      with m have o: "Operations it (toUpper m) = Some (Some op)"
        by (auto simp: Operations_Some_iff)
      then have "toUpper m \<in> set methodNames" by (rule Operations_methodNames)
      with assms(2) have "toUpper m \<in> set ks" by blast
      with o have "toUpper m \<in> set (filter ?P ks)" by simp
      then have "\<lparr>Method = toUpper m, Path = rawPath\<rparr> \<in> set ?L"
        unfolding set_map by (rule imageI)
      with x show "x \<in> set ?L" by (simp add: keyOf_def)
    qed
  qed
  have "mset ?L = mset ?R"
    using set_eq_iff_mset_eq_distinct [OF dl dr] sl by blast
  then show ?thesis by (simp only: keys_visitedIn_rangeMap)
qed

lemma declaredIn_None: "declaredIn rawPath None = []"
  by (simp add: declaredIn_def)

lemma visited_declared_mset:
  "mset (map fst (visited order ps)) =
     mset (map keyOf (concat (map (\<lambda>(p, item). declaredIn p item) ps)))"
proof (induction ps)
  case Nil
  show ?case by (simp add: visited_def)
next
  case (Cons x ps)
  obtain rawPath item where x: "x = (rawPath, item)" by (cases x)
  have o: "distinct (keys (order rawPath))" "set methodNames \<subseteq> set (keys (order rawPath))"
    by (simp_all add: keys_methodOrder)
  show ?case
  proof (cases item)
    case None
    with x Cons.IH show ?thesis by (simp add: visited_Cons_None declaredIn_None)
  next
    case (Some it)
    with x Cons.IH keys_item_mset [OF o, of rawPath it] show ?thesis
      by (simp add: visited_Cons_Some)
  qed
qed

lemma visited_declared_set:
  "fst ` set (visited order ps) =
     keyOf ` set (concat (map (\<lambda>(p, item). declaredIn p item) ps))"
proof -
  have "set (map fst (visited order ps)) =
        set (map keyOf (concat (map (\<lambda>(p, item). declaredIn p item) ps)))"
    using visited_declared_mset [of order ps] by (rule mset_eq_setD)
  then show ?thesis by (simp only: set_map)
qed

lemma distinct_visited:
  assumes "distinct (map fst ps)"
  shows "distinct (map fst (visited order ps))"
proof -
  from assms have "distinct (concat (map (\<lambda>(p, item). declaredIn p item) ps))"
    by (rule distinct_declared_concat)
  with keyOf_inj_on_declared [of ps]
  have "distinct (map keyOf (concat (map (\<lambda>(p, item). declaredIn p item) ps)))"
    by (simp add: distinct_map)
  with mset_eq_imp_distinct_iff [OF visited_declared_mset [of order ps]]
  show ?thesis by blast
qed

lemma set_visited:
  "set (visited order ps) =
     {(\<lparr>Method = k, Path = rawPath\<rparr>, op) | rawPath it k op.
        (rawPath, Some it) \<in> set ps \<and> Operations it k = Some (Some op)}"
proof -
  have in_order: "k \<in> set (keys (order rawPath))" if "Operations it k = Some (Some op)"
    for it k op rawPath
    using Operations_methodNames [OF that] by (simp add: keys_methodOrder)
  show ?thesis
  proof (induction ps)
    case Nil
    show ?case by (simp add: visited_def)
  next
    case (Cons x ps)
    obtain rawPath item where x: "x = (rawPath, item)" by (cases x)
    show ?case
    proof (cases item)
      case None
      with x Cons.IH show ?thesis by (auto simp: visited_Cons_None)
    next
      case (Some it)
      with x Cons.IH show ?thesis
        by (auto simp: visited_Cons_Some set_visitedIn_rangeMap dest: in_order)
    qed
  qed
qed

lemma set_visited_order: "set (visited order ps) = set (visited order' ps)"
  by (simp add: set_visited)


section \<open>The order of the visit\<close>

text \<open>
  The order of the visit matters only for the choice of the error: with keys that are
  stored once, any two orders of the same operations give the same mapping, or an error
  each. This holds for the order of the paths and for the orders of the inner ranges.
\<close>

lemma resolveAll_lookup:
  assumes "resolveAll root xs m = Inr m'" and "distinct (map fst xs)"
  shows "m' k =
     (case map_of xs k of
        None \<Rightarrow> m k
      | Some op \<Rightarrow> (case derivePolicy root op of Inl e \<Rightarrow> None | Inr pol \<Rightarrow> Some pol))"
  using assms
proof (induction xs arbitrary: m)
  case Nil
  then show ?case by simp
next
  case (Cons x xs)
  obtain k' op' where x: "x = (k', op')" by (cases x)
  from Cons.prems(1) x obtain policy where d: "derivePolicy root op' = Inr policy"
    and r: "resolveAll root xs (m(k' \<mapsto> policy)) = Inr m'"
    by (blast elim: resolveAll_Cons_Inr)
  from Cons.prems(2) x have notin: "k' \<notin> fst ` set xs" and dx: "distinct (map fst xs)"
    by simp_all
  from notin have none: "map_of xs k' = None" by (simp add: map_of_eq_None_iff)
  note ih = Cons.IH [OF r dx]
  show ?case
  proof (cases "k = k'")
    case True
    with ih none d x show ?thesis by simp
  next
    case False
    with ih x show ?thesis by (simp split: option.splits)
  qed
qed

lemma visit_order_immaterial:
  assumes "distinct (map fst xs)" and "distinct (map fst ys)" and "set xs = set ys"
    and "resolveAll root xs m = Inr m'"
  shows "resolveAll root ys m = Inr m'"
proof -
  have ok: "\<exists>pol. derivePolicy root op = Inr pol" if "(k, op) \<in> set ys" for k op
    using resolveAll_Inr_all [OF assms(4)] assms(3) that by blast
  have "\<exists>m''. resolveAll root ys m = Inr m''"
    by (rule resolveAll_total) (rule ok)
  then obtain m'' where r: "resolveAll root ys m = Inr m''" ..
  from assms(1,2,3) have mo: "map_of xs = map_of ys" by (simp add: map_of_inject_set)
  have "m'' k = m' k" for k
    using resolveAll_lookup [OF r assms(2), of k] resolveAll_lookup [OF assms(4) assms(1), of k] mo
    by simp
  then have "m'' = m'" by (rule ext)
  with r show ?thesis by simp
qed

lemma visit_order_error:
  assumes "set xs = set ys" and "resolveAll root xs m = Inl e"
  shows "\<exists>e'. resolveAll root ys m = Inl e'"
proof -
  from resolveAll_Inl [OF assms(2)] obtain k op where
    "(k, op) \<in> set xs" and "derivePolicy root op = Inl NoBearerAuth"
    by blast
  with assms(1) show ?thesis by (auto intro: resolveAll_fails)
qed

lemma derivePolicy_root_security:
  "openapiRoot.Security r = openapiRoot.Security r' \<Longrightarrow> derivePolicy r op = derivePolicy r' op"
  by (cases "operation.Security op") (simp_all add: derivePolicy_cases effectiveSecurity_def)

lemma resolveAll_root_security:
  "openapiRoot.Security r = openapiRoot.Security r' \<Longrightarrow> resolveAll r xs m = resolveAll r' xs m"
proof (induction xs arbitrary: m)
  case Nil
  show ?case by simp
next
  case (Cons x xs)
  obtain k op where x: "x = (k, op)" by (cases x)
  from Cons.prems have d: "derivePolicy r op = derivePolicy r' op"
    by (rule derivePolicy_root_security)
  show ?case
  proof (cases "derivePolicy r' op")
    case (Inl err)
    with d x show ?thesis by simp
  next
    case (Inr policy)
    with d x Cons.IH [OF Cons.prems] show ?thesis by (simp del: fun_upd_apply)
  qed
qed

lemma order_immaterial:
  assumes "readFile path = Inr data" and "unmarshal data = Inr r"
    and "readFile path' = Inr data'" and "unmarshal data' = Inr r'"
    and "openapiRoot.Security r = openapiRoot.Security r'"
    and "distinct (map fst (Paths r))" and "distinct (map fst (Paths r'))"
    and "set (Paths r) = set (Paths r')"
  shows "(\<exists>cfg. ParseConfig readFile unmarshal order path = Inr cfg \<and>
                ParseConfig readFile unmarshal order' path' = Inr cfg) \<or>
         (\<exists>e e'. ParseConfig readFile unmarshal order path = Inl e \<and>
                 ParseConfig readFile unmarshal order' path' = Inl e')"
proof -
  have dv: "distinct (map fst (visited order (Paths r)))"
    using assms(6) by (rule distinct_visited)
  have dv': "distinct (map fst (visited order' (Paths r')))"
    using assms(7) by (rule distinct_visited)
  have sv: "set (visited order (Paths r)) = set (visited order' (Paths r'))"
    using assms(8) by (simp add: set_visited)
  note rs = resolveAll_root_security [OF assms(5)]
  show ?thesis
  proof (cases "resolveAll r (visited order (Paths r)) Map.empty")
    case (Inl e)
    from visit_order_error [OF sv Inl] obtain e' where
      "resolveAll r (visited order' (Paths r')) Map.empty = Inl e'" ..
    then have "resolveAll r' (visited order' (Paths r')) Map.empty = Inl e'" by (simp add: rs)
    with Inl assms(1-4) show ?thesis by (simp add: ParseConfig_loaded)
  next
    case (Inr m')
    from visit_order_immaterial [OF dv dv' sv Inr]
    have "resolveAll r' (visited order' (Paths r')) Map.empty = Inr m'" by (simp add: rs)
    with Inr assms(1-4) show ?thesis by (simp add: ParseConfig_loaded)
  qed
qed


section \<open>The example documents\<close>

lemmas example_ranges =
  Operations_apply rangeMap_def visited_def visitedIn_def emptyItem_def
  inSourceOrder.rep_eq postFirst.rep_eq

lemma visited_basicSpec:
  "visited inSourceOrder (Paths basicSpec) =
     [(\<lparr>Method = ''GET'', Path = ''/public''\<rparr>, \<lparr>operation.Security = None\<rparr>),
      (\<lparr>Method = ''GET'', Path = ''/user''\<rparr>, bearer []),
      (\<lparr>Method = ''DELETE'', Path = ''/admin''\<rparr>, bearer [''role:admin'']),
      (\<lparr>Method = ''POST'', Path = ''/scoped''\<rparr>, bearer [''vegetable:write''])]"
  by (simp add: basicSpec_def example_ranges)

lemma visited_twoOffenders:
  "visited inSourceOrder (Paths twoOffenders) =
     [(\<lparr>Method = ''GET'', Path = ''/a''\<rparr>, apiKeyOnly),
      (\<lparr>Method = ''GET'', Path = ''/b''\<rparr>, apiKeyOnly)]"
  by (simp add: twoOffenders_def example_ranges)

lemma visited_getAndPost:
  "visited inSourceOrder (Paths getAndPost) =
     [(\<lparr>Method = ''GET'', Path = ''/a''\<rparr>, apiKeyOnly),
      (\<lparr>Method = ''POST'', Path = ''/a''\<rparr>, apiKeyOnly)]"
  "visited postFirst (Paths getAndPost) =
     [(\<lparr>Method = ''POST'', Path = ''/a''\<rparr>, apiKeyOnly),
      (\<lparr>Method = ''GET'', Path = ''/a''\<rparr>, apiKeyOnly)]"
  by (simp_all add: getAndPost_def example_ranges)

lemma derivePolicy_basicSpec:
  "derivePolicy basicSpec \<lparr>operation.Security = None\<rparr> =
     Inr \<lparr>RequireAuth = False, Roles = [], Scopes = []\<rparr>"
  "derivePolicy basicSpec (bearer []) = Inr \<lparr>RequireAuth = True, Roles = [], Scopes = []\<rparr>"
  "derivePolicy basicSpec (bearer [''role:admin'']) =
     Inr \<lparr>RequireAuth = True, Roles = [''admin''], Scopes = []\<rparr>"
  "derivePolicy basicSpec (bearer [''vegetable:write'']) =
     Inr \<lparr>RequireAuth = True, Roles = [], Scopes = [''vegetable:write'']\<rparr>"
  by (simp_all add: basicSpec_def bearer_def derivePolicy_def effectiveSecurity_def publicPolicy_def)

lemma derivePolicy_apiKeyOnly:
  "derivePolicy twoOffenders apiKeyOnly = Inl NoBearerAuth"
  "derivePolicy getAndPost apiKeyOnly = Inl NoBearerAuth"
  by (simp_all add: twoOffenders_def getAndPost_def apiKeyOnly_def derivePolicy_def
        effectiveSecurity_def)

lemma ParseConfig_basicSpec:
  "ParseConfig (\<lambda>p. Inr []) (\<lambda>d. Inr basicSpec) inSourceOrder [] =
     Inr \<lparr>Policies =
       [\<lparr>Method = ''GET'', Path = ''/public''\<rparr> \<mapsto> \<lparr>RequireAuth = False, Roles = [], Scopes = []\<rparr>,
        \<lparr>Method = ''GET'', Path = ''/user''\<rparr> \<mapsto> \<lparr>RequireAuth = True, Roles = [], Scopes = []\<rparr>,
        \<lparr>Method = ''DELETE'', Path = ''/admin''\<rparr> \<mapsto>
          \<lparr>RequireAuth = True, Roles = [''admin''], Scopes = []\<rparr>,
        \<lparr>Method = ''POST'', Path = ''/scoped''\<rparr> \<mapsto>
          \<lparr>RequireAuth = True, Roles = [], Scopes = [''vegetable:write'']\<rparr>]\<rparr>"
  by (simp add: ParseConfig_loaded visited_basicSpec derivePolicy_basicSpec del: fun_upd_apply)

lemma declared_basicSpec:
  "declared basicSpec =
     [(''get'', ''/public''), (''get'', ''/user''), (''delete'', ''/admin''), (''post'', ''/scoped'')]"
  by (simp add: declared_def declaredIn_def basicSpec_def emptyItem_def methods_def yamlField_def)


section \<open>The resolved mapping\<close>

text \<open>
  C5. In the \<^verbatim>\<open>Config\<close> of a successful run of \<^verbatim>\<open>ParseConfig\<close>, a policy that does not
  require authentication has no roles and no scopes.
\<close>

theorem public_policy_has_no_roles_or_scopes:
  assumes "ParseConfig readFile unmarshal order path = Inr cfg"
    and "Policies cfg key = Some policy"
    and "\<not> RequireAuth policy"
  shows "Roles policy = [] \<and> Scopes policy = []"
proof -
  from ParseConfig_Inr [OF assms(1)] obtain root where
    r: "resolveAll root (visited order (Paths root)) Map.empty = Inr (Policies cfg)"
    by blast
  from resolveAll_Inr_value [OF r assms(2)] obtain op where
    "derivePolicy root op = Inr policy"
    by auto
  from derivePolicy_invariant [OF this assms(3)] show ?thesis .
qed

theorem public_policy_has_no_roles_or_scopes_witness:
  "(\<exists>cfg. ParseConfig (\<lambda>p. Inr []) (\<lambda>d. Inr basicSpec) inSourceOrder [] = Inr cfg \<and>
      Policies cfg \<lparr>Method = ''GET'', Path = ''/public''\<rparr> =
        Some \<lparr>RequireAuth = False, Roles = [], Scopes = []\<rparr>) \<and>
   \<not> RequireAuth \<lparr>RequireAuth = False, Roles = [], Scopes = []\<rparr> \<and>
   Roles \<lparr>RequireAuth = False, Roles = [], Scopes = []\<rparr> = [] \<and>
   Scopes \<lparr>RequireAuth = False, Roles = [], Scopes = []\<rparr> = []"
proof -
  let ?cfg = "\<lparr>Policies =
       [\<lparr>Method = ''GET'', Path = ''/public''\<rparr> \<mapsto> \<lparr>RequireAuth = False, Roles = [], Scopes = []\<rparr>,
        \<lparr>Method = ''GET'', Path = ''/user''\<rparr> \<mapsto> \<lparr>RequireAuth = True, Roles = [], Scopes = []\<rparr>,
        \<lparr>Method = ''DELETE'', Path = ''/admin''\<rparr> \<mapsto>
          \<lparr>RequireAuth = True, Roles = [''admin''], Scopes = []\<rparr>,
        \<lparr>Method = ''POST'', Path = ''/scoped''\<rparr> \<mapsto>
          \<lparr>RequireAuth = True, Roles = [], Scopes = [''vegetable:write'']\<rparr>]\<rparr>"
  let ?p = "\<lparr>RequireAuth = False, Roles = [], Scopes = []\<rparr>"
  have h1: "ParseConfig (\<lambda>p. Inr []) (\<lambda>d. Inr basicSpec) inSourceOrder [] = Inr ?cfg"
    by (rule ParseConfig_basicSpec)
  have h2: "Policies ?cfg \<lparr>Method = ''GET'', Path = ''/public''\<rparr> = Some ?p"
    by simp
  have h3: "\<not> RequireAuth ?p" by simp
  from public_policy_has_no_roles_or_scopes [OF h1 h2 h3] h1 h2 h3
  show ?thesis by blast
qed

text \<open>
  C7. \<^verbatim>\<open>ParseConfig\<close> returns a \<^verbatim>\<open>Config\<close> only when the file was read, the document
  decoded and every visited operation resolved; the \<^verbatim>\<open>Config\<close> then has exactly the keys
  of the visited operations, which are the keys of all declared operations, each with a
  policy that \<^verbatim>\<open>derivePolicy\<close> gave for an operation under that key. When reading or
  decoding fails, or when the resolution of any one visited operation fails, the result
  is an error and there is no \<^verbatim>\<open>Config\<close>. When all of them succeed the result is a
  \<^verbatim>\<open>Config\<close>.
\<close>

theorem ParseConfig_all_or_nothing:
  "(ParseConfig readFile unmarshal order path = Inr cfg \<longrightarrow>
      (\<exists>data root. readFile path = Inr data \<and> unmarshal data = Inr root \<and>
         dom (Policies cfg) = fst ` set (visited order (Paths root)) \<and>
         dom (Policies cfg) = keyOf ` set (declared root) \<and>
         (\<forall>(k, op) \<in> set (visited order (Paths root)). \<exists>pol. derivePolicy root op = Inr pol) \<and>
         (\<forall>k pol. Policies cfg k = Some pol \<longrightarrow>
            (\<exists>op. (k, op) \<in> set (visited order (Paths root)) \<and> derivePolicy root op = Inr pol)))) \<and>
   (readFile path = Inl msg \<longrightarrow> ParseConfig readFile unmarshal order path = Inl (ReadSpec msg)) \<and>
   (readFile path = Inr data \<and> unmarshal data = Inl msg \<longrightarrow>
      ParseConfig readFile unmarshal order path = Inl (UnmarshalSpec msg)) \<and>
   (readFile path = Inr data \<and> unmarshal data = Inr root \<and>
    (k, op) \<in> set (visited order (Paths root)) \<and> derivePolicy root op = Inl err \<longrightarrow>
      (\<exists>e. ParseConfig readFile unmarshal order path = Inl e)) \<and>
   (readFile path = Inr data \<and> unmarshal data = Inr root \<and>
    (\<forall>(k, op) \<in> set (visited order (Paths root)). \<exists>pol. derivePolicy root op = Inr pol) \<longrightarrow>
      (\<exists>c. ParseConfig readFile unmarshal order path = Inr c))"
proof -
  have a: "ParseConfig readFile unmarshal order path = Inr cfg \<longrightarrow>
      (\<exists>data root. readFile path = Inr data \<and> unmarshal data = Inr root \<and>
         dom (Policies cfg) = fst ` set (visited order (Paths root)) \<and>
         dom (Policies cfg) = keyOf ` set (declared root) \<and>
         (\<forall>(k, op) \<in> set (visited order (Paths root)). \<exists>pol. derivePolicy root op = Inr pol) \<and>
         (\<forall>k pol. Policies cfg k = Some pol \<longrightarrow>
            (\<exists>op. (k, op) \<in> set (visited order (Paths root)) \<and> derivePolicy root op = Inr pol)))"
  proof
    assume "ParseConfig readFile unmarshal order path = Inr cfg"
    from ParseConfig_Inr [OF this] obtain data root where
      rd: "readFile path = Inr data" and um: "unmarshal data = Inr root" and
      r: "resolveAll root (visited order (Paths root)) Map.empty = Inr (Policies cfg)"
      by blast
    have d: "dom (Policies cfg) = fst ` set (visited order (Paths root))"
      using resolveAll_Inr_dom [OF r] by simp
    have d': "dom (Policies cfg) = keyOf ` set (declared root)"
      using d by (simp only: visited_declared_set declared_def)
    have s: "\<forall>(k, op) \<in> set (visited order (Paths root)). \<exists>pol. derivePolicy root op = Inr pol"
      using resolveAll_Inr_all [OF r] by blast
    have v: "\<forall>k pol. Policies cfg k = Some pol \<longrightarrow>
            (\<exists>op. (k, op) \<in> set (visited order (Paths root)) \<and> derivePolicy root op = Inr pol)"
      using resolveAll_Inr_value [OF r] by simp
    from rd um d d' s v show "\<exists>data root. readFile path = Inr data \<and> unmarshal data = Inr root \<and>
         dom (Policies cfg) = fst ` set (visited order (Paths root)) \<and>
         dom (Policies cfg) = keyOf ` set (declared root) \<and>
         (\<forall>(k, op) \<in> set (visited order (Paths root)). \<exists>pol. derivePolicy root op = Inr pol) \<and>
         (\<forall>k pol. Policies cfg k = Some pol \<longrightarrow>
            (\<exists>op. (k, op) \<in> set (visited order (Paths root)) \<and> derivePolicy root op = Inr pol))"
      by blast
  qed
  have b: "readFile path = Inl msg \<longrightarrow> ParseConfig readFile unmarshal order path = Inl (ReadSpec msg)"
    by (simp add: ParseConfig_def)
  have c: "readFile path = Inr data \<and> unmarshal data = Inl msg \<longrightarrow>
      ParseConfig readFile unmarshal order path = Inl (UnmarshalSpec msg)"
    by (simp add: ParseConfig_def)
  have d: "readFile path = Inr data \<and> unmarshal data = Inr root \<and>
    (k, op) \<in> set (visited order (Paths root)) \<and> derivePolicy root op = Inl err \<longrightarrow>
      (\<exists>e. ParseConfig readFile unmarshal order path = Inl e)"
  proof
    assume h: "readFile path = Inr data \<and> unmarshal data = Inr root \<and>
      (k, op) \<in> set (visited order (Paths root)) \<and> derivePolicy root op = Inl err"
    then obtain e where "resolveAll root (visited order (Paths root)) Map.empty = Inl e"
      using resolveAll_fails [of k op "visited order (Paths root)" root err Map.empty] by blast
    with h show "\<exists>e. ParseConfig readFile unmarshal order path = Inl e"
      by (simp add: ParseConfig_loaded)
  qed
  have e: "readFile path = Inr data \<and> unmarshal data = Inr root \<and>
    (\<forall>(k, op) \<in> set (visited order (Paths root)). \<exists>pol. derivePolicy root op = Inr pol) \<longrightarrow>
      (\<exists>c. ParseConfig readFile unmarshal order path = Inr c)"
  proof
    assume h: "readFile path = Inr data \<and> unmarshal data = Inr root \<and>
      (\<forall>(k, op) \<in> set (visited order (Paths root)). \<exists>pol. derivePolicy root op = Inr pol)"
    then have "\<exists>m'. resolveAll root (visited order (Paths root)) Map.empty = Inr m'"
      by (intro resolveAll_total) blast
    then obtain m' where "resolveAll root (visited order (Paths root)) Map.empty = Inr m'" ..
    with h show "\<exists>c. ParseConfig readFile unmarshal order path = Inr c"
      by (simp add: ParseConfig_loaded)
  qed
  from a b c d e show ?thesis by blast
qed

theorem ParseConfig_all_or_nothing_witness:
  "ParseConfig (\<lambda>p. Inl ''missing'') (\<lambda>d. Inr basicSpec) inSourceOrder [] = Inl (ReadSpec ''missing'') \<and>
   ParseConfig (\<lambda>p. Inr []) (\<lambda>d. Inl ''not a mapping'') inSourceOrder [] =
     Inl (UnmarshalSpec ''not a mapping'') \<and>
   (\<lparr>Method = ''GET'', Path = ''/b''\<rparr>, apiKeyOnly) \<in> set (visited inSourceOrder (Paths twoOffenders)) \<and>
   derivePolicy twoOffenders apiKeyOnly = Inl NoBearerAuth \<and>
   (\<exists>e. ParseConfig (\<lambda>p. Inr []) (\<lambda>d. Inr twoOffenders) inSourceOrder [] = Inl e) \<and>
   (\<exists>c. ParseConfig (\<lambda>p. Inr []) (\<lambda>d. Inr basicSpec) inSourceOrder [] = Inr c \<and>
        dom (Policies c) = fst ` set (visited inSourceOrder (Paths basicSpec)))"
proof -
  note t = ParseConfig_all_or_nothing
  have w1: "ParseConfig (\<lambda>p. Inl ''missing'') (\<lambda>d. Inr basicSpec) inSourceOrder [] = Inl (ReadSpec ''missing'')"
    using t [where readFile = "\<lambda>p. Inl ''missing''" and order = inSourceOrder and path = "[]" and msg = "''missing''"
            and unmarshal = "\<lambda>d. Inr basicSpec", THEN conjunct2, THEN conjunct1]
    by simp
  have w2: "ParseConfig (\<lambda>p. Inr []) (\<lambda>d. Inl ''not a mapping'') inSourceOrder [] =
     Inl (UnmarshalSpec ''not a mapping'')"
    using t [where readFile = "\<lambda>p. Inr []" and order = inSourceOrder and path = "[]" and msg = "''not a mapping''"
            and unmarshal = "\<lambda>d. Inl ''not a mapping''" and data = "[]",
          THEN conjunct2, THEN conjunct2, THEN conjunct1]
    by simp
  have m: "(\<lparr>Method = ''GET'', Path = ''/b''\<rparr>, apiKeyOnly) \<in> set (visited inSourceOrder (Paths twoOffenders))"
    by (simp add: visited_twoOffenders)
  have w3: "\<exists>e. ParseConfig (\<lambda>p. Inr []) (\<lambda>d. Inr twoOffenders) inSourceOrder [] = Inl e"
    using m derivePolicy_apiKeyOnly
      t [where readFile = "\<lambda>p. Inr []" and order = inSourceOrder and path = "[]" and unmarshal = "\<lambda>d. Inr twoOffenders"
            and data = "[]" and root = twoOffenders
            and k = "\<lparr>Method = ''GET'', Path = ''/b''\<rparr>" and op = apiKeyOnly
            and err = NoBearerAuth,
          THEN conjunct2, THEN conjunct2, THEN conjunct2, THEN conjunct1]
    by simp
  have ok: "\<forall>(k, op) \<in> set (visited inSourceOrder (Paths basicSpec)). \<exists>pol. derivePolicy basicSpec op = Inr pol"
    by (simp add: visited_basicSpec derivePolicy_basicSpec)
  have "\<exists>c. ParseConfig (\<lambda>p. Inr []) (\<lambda>d. Inr basicSpec) inSourceOrder [] = Inr c"
    using ok
      t [where readFile = "\<lambda>p. Inr []" and order = inSourceOrder and path = "[]" and unmarshal = "\<lambda>d. Inr basicSpec"
            and data = "[]" and root = basicSpec,
          THEN conjunct2, THEN conjunct2, THEN conjunct2, THEN conjunct2]
    by simp
  then obtain c where c: "ParseConfig (\<lambda>p. Inr []) (\<lambda>d. Inr basicSpec) inSourceOrder [] = Inr c" ..
  from t [THEN conjunct1, THEN mp, OF c]
  have "dom (Policies c) = fst ` set (visited inSourceOrder (Paths basicSpec))" by auto
  with c have w4: "\<exists>c. ParseConfig (\<lambda>p. Inr []) (\<lambda>d. Inr basicSpec) inSourceOrder [] = Inr c \<and>
        dom (Policies c) = fst ` set (visited inSourceOrder (Paths basicSpec))"
    by blast
  from w1 w2 m derivePolicy_apiKeyOnly w3 w4 show ?thesis by blast
qed

text \<open>
  C1, as stated: for every operation whose non-empty effective security list names no
  \<^verbatim>\<open>BearerAuth\<close>, \<^verbatim>\<open>ParseConfig\<close> returns the resolution error with that operation's method
  and path. With two such operations the run ends at the first one visited, and the
  error names only that one: the other operation's method and path are not reported,
  whichever of the two comes first.
\<close>

theorem second_offender_is_not_reported:
  "visited inSourceOrder (Paths twoOffenders) =
     [(\<lparr>Method = ''GET'', Path = ''/a''\<rparr>, apiKeyOnly),
      (\<lparr>Method = ''GET'', Path = ''/b''\<rparr>, apiKeyOnly)] \<and>
   effectiveSecurity twoOffenders apiKeyOnly = Some [[(''ApiKeyAuth'', [])]] \<and>
   derivePolicy twoOffenders apiKeyOnly = Inl NoBearerAuth \<and>
   ParseConfig readable (decodesTo twoOffenders) inSourceOrder [] =
     Inl (DerivePolicyFor ''GET'' ''/a'' NoBearerAuth) \<and>
   ParseConfig readable (decodesTo twoOffenders) inSourceOrder [] \<noteq>
     Inl (DerivePolicyFor ''GET'' ''/b'' NoBearerAuth) \<and>
   ParseConfig readable (decodesTo (twoOffenders\<lparr>Paths := rev (Paths twoOffenders)\<rparr>))
     inSourceOrder [] =
     Inl (DerivePolicyFor ''GET'' ''/b'' NoBearerAuth) \<and>
   ParseConfig readable (decodesTo (twoOffenders\<lparr>Paths := rev (Paths twoOffenders)\<rparr>))
     inSourceOrder [] \<noteq>
     Inl (DerivePolicyFor ''GET'' ''/a'' NoBearerAuth)"
  by (simp add: ParseConfig_def readable_def decodesTo_def twoOffenders_def apiKeyOnly_def
        example_ranges derivePolicy_def effectiveSecurity_def)

text \<open>
  C1, amended. An operation whose effective security list is non-empty and names
  \<^verbatim>\<open>BearerAuth\<close> in no requirement object does not resolve to a public policy:
  \<^verbatim>\<open>derivePolicy\<close> fails. \<^verbatim>\<open>ParseConfig\<close> on a document that declares such an operation
  visits it, whatever order the ranges take, and fails with the resolution error of the
  first such operation it visits, wrapped with the method and path of that one. These
  are the operation's own method and path in every run in which all operations visited
  before it resolve. Which operation comes first depends on the order of the ranges: of
  two such operations under one path, either one can be the one reported.
\<close>

theorem first_offender_is_reported:
  assumes "readFile path = Inr data" and "unmarshal data = Inr root"
    and "(rawPath, Some item) \<in> set (Paths root)"
    and "Operations item method = Some (Some op)"
    and "effectiveSecurity root op = Some sec" and "sec \<noteq> []"
    and "\<forall>req \<in> set sec. ''BearerAuth'' \<notin> fst ` set req"
  shows "derivePolicy root op = Inl NoBearerAuth \<and>
         (\<lparr>Method = method, Path = rawPath\<rparr>, op) \<in> set (visited order (Paths root)) \<and>
         (\<exists>k' op' pre post.
            visited order (Paths root) = pre @ (k', op') # post \<and>
            (\<forall>(j, o') \<in> set pre. \<exists>pol. derivePolicy root o' = Inr pol) \<and>
            derivePolicy root op' = Inl NoBearerAuth \<and>
            ParseConfig readFile unmarshal order path =
              Inl (DerivePolicyFor (Method k') (Path k') NoBearerAuth)) \<and>
         (\<forall>pre post.
            visited order (Paths root) = pre @ (\<lparr>Method = method, Path = rawPath\<rparr>, op) # post \<and>
            (\<forall>(j, o') \<in> set pre. \<exists>pol. derivePolicy root o' = Inr pol) \<longrightarrow>
            ParseConfig readFile unmarshal order path =
              Inl (DerivePolicyFor method rawPath NoBearerAuth))"
proof -
  let ?k = "\<lparr>Method = method, Path = rawPath\<rparr>"
  have fail: "derivePolicy root op = Inl NoBearerAuth"
    using assms(5,6,7) by (rule no_bearer_fails)
  have mem: "(?k, op) \<in> set (visited order (Paths root))"
    using assms(3,4) by (auto simp: set_visited)
  have first: "ParseConfig readFile unmarshal order path =
      Inl (DerivePolicyFor (Method k') (Path k') NoBearerAuth)"
    if "visited order (Paths root) = pre @ (k', op') # post"
      and "\<forall>(j, o') \<in> set pre. \<exists>pol. derivePolicy root o' = Inr pol"
      and "derivePolicy root op' = Inl NoBearerAuth"
    for k' op' pre post
  proof -
    from that(2) have "\<And>j o'. (j, o') \<in> set pre \<Longrightarrow> \<exists>pol. derivePolicy root o' = Inr pol"
      by blast
    from resolveAll_first_failure [OF this that(3), where k = k' and post = post and m = Map.empty]
      that(1)
    show ?thesis using assms(1,2) by (simp add: ParseConfig_loaded)
  qed
  from first_failure_split [OF mem fail]
  obtain pre k' op' post where
    sp: "visited order (Paths root) = pre @ (k', op') # post" and
    f': "derivePolicy root op' = Inl NoBearerAuth" and
    ok: "\<forall>(j, o') \<in> set pre. \<exists>pol. derivePolicy root o' = Inr pol"
    by blast
  from first [OF sp ok f'] sp ok f'
  have some: "\<exists>k' op' pre post.
      visited order (Paths root) = pre @ (k', op') # post \<and>
      (\<forall>(j, o') \<in> set pre. \<exists>pol. derivePolicy root o' = Inr pol) \<and>
      derivePolicy root op' = Inl NoBearerAuth \<and>
      ParseConfig readFile unmarshal order path =
        Inl (DerivePolicyFor (Method k') (Path k') NoBearerAuth)"
    by blast
  have own: "\<forall>pre post.
      visited order (Paths root) = pre @ (?k, op) # post \<and>
      (\<forall>(j, o') \<in> set pre. \<exists>pol. derivePolicy root o' = Inr pol) \<longrightarrow>
      ParseConfig readFile unmarshal order path =
        Inl (DerivePolicyFor method rawPath NoBearerAuth)"
  proof (intro allI impI)
    fix pre post
    assume h: "visited order (Paths root) = pre @ (?k, op) # post \<and>
      (\<forall>(j, o') \<in> set pre. \<exists>pol. derivePolicy root o' = Inr pol)"
    from h have v: "visited order (Paths root) = pre @ (?k, op) # post"
      and p: "\<forall>(j, o') \<in> set pre. \<exists>pol. derivePolicy root o' = Inr pol"
      by blast+
    from first [OF v p fail]
    show "ParseConfig readFile unmarshal order path =
        Inl (DerivePolicyFor method rawPath NoBearerAuth)"
      by simp
  qed
  from fail mem some own show ?thesis by blast
qed

theorem first_offender_is_reported_witness:
  "(''/a'', Some (emptyItem\<lparr>Get := Some apiKeyOnly, Post := Some apiKeyOnly\<rparr>))
     \<in> set (Paths getAndPost) \<and>
   Operations (emptyItem\<lparr>Get := Some apiKeyOnly, Post := Some apiKeyOnly\<rparr>) ''GET'' =
     Some (Some apiKeyOnly) \<and>
   Operations (emptyItem\<lparr>Get := Some apiKeyOnly, Post := Some apiKeyOnly\<rparr>) ''POST'' =
     Some (Some apiKeyOnly) \<and>
   effectiveSecurity getAndPost apiKeyOnly = Some [[(''ApiKeyAuth'', [])]] \<and>
   ''BearerAuth'' \<notin> fst ` set [(''ApiKeyAuth'', [])] \<and>
   derivePolicy getAndPost apiKeyOnly = Inl NoBearerAuth \<and>
   visited inSourceOrder (Paths getAndPost) =
     [] @ (\<lparr>Method = ''GET'', Path = ''/a''\<rparr>, apiKeyOnly) #
       [(\<lparr>Method = ''POST'', Path = ''/a''\<rparr>, apiKeyOnly)] \<and>
   ParseConfig (\<lambda>p. Inr []) (\<lambda>d. Inr getAndPost) inSourceOrder [] =
     Inl (DerivePolicyFor ''GET'' ''/a'' NoBearerAuth) \<and>
   visited postFirst (Paths getAndPost) =
     [] @ (\<lparr>Method = ''POST'', Path = ''/a''\<rparr>, apiKeyOnly) #
       [(\<lparr>Method = ''GET'', Path = ''/a''\<rparr>, apiKeyOnly)] \<and>
   ParseConfig (\<lambda>p. Inr []) (\<lambda>d. Inr getAndPost) postFirst [] =
     Inl (DerivePolicyFor ''POST'' ''/a'' NoBearerAuth)"
proof -
  let ?item = "emptyItem\<lparr>Get := Some apiKeyOnly, Post := Some apiKeyOnly\<rparr>"
  let ?get = "(\<lparr>Method = ''GET'', Path = ''/a''\<rparr>, apiKeyOnly)"
  let ?post = "(\<lparr>Method = ''POST'', Path = ''/a''\<rparr>, apiKeyOnly)"
  let ?sec = "[[(''ApiKeyAuth'', [])]]"
  have h3: "(''/a'', Some ?item) \<in> set (Paths getAndPost)"
    by (simp add: getAndPost_def)
  have g: "Operations ?item ''GET'' = Some (Some apiKeyOnly)"
    by (simp add: Operations_apply emptyItem_def)
  have p: "Operations ?item ''POST'' = Some (Some apiKeyOnly)"
    by (simp add: Operations_apply emptyItem_def)
  have h5: "effectiveSecurity getAndPost apiKeyOnly = Some ?sec"
    by (simp add: effectiveSecurity_def apiKeyOnly_def)
  have h6: "?sec \<noteq> []" by simp
  have h7: "\<forall>req \<in> set ?sec. ''BearerAuth'' \<notin> fst ` set req" by simp
  have e: "\<forall>(j, o') \<in> set []. \<exists>pol. derivePolicy getAndPost o' = Inr pol" by simp
  have vs: "visited inSourceOrder (Paths getAndPost) = [] @ ?get # [?post]"
    by (simp add: visited_getAndPost)
  have vp: "visited postFirst (Paths getAndPost) = [] @ ?post # [?get]"
    by (simp add: visited_getAndPost)
  note rs = first_offender_is_reported
    [where readFile = "\<lambda>p. Inr []" and unmarshal = "\<lambda>d. Inr getAndPost"
       and order = inSourceOrder and path = "[]" and data = "[]" and root = getAndPost
       and sec = ?sec,
     OF refl refl h3 g h5 h6 h7]
  note rp = first_offender_is_reported
    [where readFile = "\<lambda>p. Inr []" and unmarshal = "\<lambda>d. Inr getAndPost"
       and order = postFirst and path = "[]" and data = "[]" and root = getAndPost
       and sec = ?sec,
     OF refl refl h3 p h5 h6 h7]
  from rs have d: "derivePolicy getAndPost apiKeyOnly = Inl NoBearerAuth" by blast
  from rs have owns: "\<forall>pre post.
      visited inSourceOrder (Paths getAndPost) = pre @ ?get # post \<and>
      (\<forall>(j, o') \<in> set pre. \<exists>pol. derivePolicy getAndPost o' = Inr pol) \<longrightarrow>
      ParseConfig (\<lambda>p. Inr []) (\<lambda>d. Inr getAndPost) inSourceOrder [] =
        Inl (DerivePolicyFor ''GET'' ''/a'' NoBearerAuth)"
    by blast
  from rp have ownp: "\<forall>pre post.
      visited postFirst (Paths getAndPost) = pre @ ?post # post \<and>
      (\<forall>(j, o') \<in> set pre. \<exists>pol. derivePolicy getAndPost o' = Inr pol) \<longrightarrow>
      ParseConfig (\<lambda>p. Inr []) (\<lambda>d. Inr getAndPost) postFirst [] =
        Inl (DerivePolicyFor ''POST'' ''/a'' NoBearerAuth)"
    by blast
  from owns [rule_format, of "[]" "[?post]", OF conjI, OF vs e]
  have ps: "ParseConfig (\<lambda>p. Inr []) (\<lambda>d. Inr getAndPost) inSourceOrder [] =
        Inl (DerivePolicyFor ''GET'' ''/a'' NoBearerAuth)" .
  from ownp [rule_format, of "[]" "[?get]", OF conjI, OF vp e]
  have pp: "ParseConfig (\<lambda>p. Inr []) (\<lambda>d. Inr getAndPost) postFirst [] =
        Inl (DerivePolicyFor ''POST'' ''/a'' NoBearerAuth)" .
  from h3 g p h5 d vs ps vp pp show ?thesis by simp
qed

text \<open>
  C6. After a successful run, the keys of the resolved mapping are exactly the declared
  operations of the document, each under its method in upper case and its path: every
  path with a non-nil path item, with every one of the seven YAML keys \<^verbatim>\<open>get\<close>,
  \<^verbatim>\<open>post\<close>, \<^verbatim>\<open>put\<close>, \<^verbatim>\<open>delete\<close>, \<^verbatim>\<open>patch\<close>, \<^verbatim>\<open>options\<close>, \<^verbatim>\<open>head\<close> that holds a non-nil
  operation. Whatever order the ranges take, the keys that \<^verbatim>\<open>ParseConfig\<close> stores are the
  keys of the declared operations, each as often as it is declared. The paths of a
  document are the keys of a Go map, so no path occurs twice; then no key is stored
  twice, and the mapping has as many keys as there are declared operations.
\<close>

theorem declared_operations_are_the_keys:
  assumes "ParseConfig readFile unmarshal order path = Inr cfg"
    and "readFile path = Inr data" and "unmarshal data = Inr root"
  shows "dom (Policies cfg) = keyOf ` set (declared root) \<and>
         mset (map fst (visited order (Paths root))) = mset (map keyOf (declared root)) \<and>
         set (declared root) =
           {(m, p). \<exists>it. (p, Some it) \<in> set (Paths root) \<and> m \<in> set methods \<and>
                          yamlField m it \<noteq> None} \<and>
         (distinct (map fst (Paths root)) \<longrightarrow>
            distinct (map fst (visited order (Paths root))) \<and>
            card (dom (Policies cfg)) = length (declared root))"
proof -
  from ParseConfig_Inr [OF assms(1)] assms(2,3)
  have r: "resolveAll root (visited order (Paths root)) Map.empty = Inr (Policies cfg)"
    by auto
  have v: "mset (map fst (visited order (Paths root))) = mset (map keyOf (declared root))"
    by (simp only: visited_declared_mset declared_def)
  have "dom (Policies cfg) = fst ` set (visited order (Paths root))"
    using resolveAll_Inr_dom [OF r] by simp
  then have d: "dom (Policies cfg) = keyOf ` set (declared root)"
    by (simp only: visited_declared_set declared_def)
  have s: "set (declared root) =
           {(m, p). \<exists>it. (p, Some it) \<in> set (Paths root) \<and> m \<in> set methods \<and>
                          yamlField m it \<noteq> None}"
    by (auto simp: declared_def declaredIn_def split: option.splits)
  have c: "distinct (map fst (Paths root)) \<longrightarrow>
            distinct (map fst (visited order (Paths root))) \<and>
            card (dom (Policies cfg)) = length (declared root)"
  proof
    assume dp: "distinct (map fst (Paths root))"
    then have dd: "distinct (declared root)"
      unfolding declared_def by (rule distinct_declared_concat)
    have inj: "inj_on keyOf (set (declared root))"
      unfolding declared_def by (rule keyOf_inj_on_declared)
    have "card (keyOf ` set (declared root)) = card (set (declared root))"
      using inj by (rule card_image)
    also have "\<dots> = length (declared root)" using dd by (rule distinct_card)
    finally have "card (dom (Policies cfg)) = length (declared root)" using d by simp
    with distinct_visited [OF dp, of order]
    show "distinct (map fst (visited order (Paths root))) \<and>
            card (dom (Policies cfg)) = length (declared root)"
      by simp
  qed
  from d v s c show ?thesis by blast
qed

theorem declared_operations_are_the_keys_witness:
  "distinct (map fst (Paths basicSpec)) \<and>
   declared basicSpec =
     [(''get'', ''/public''), (''get'', ''/user''), (''delete'', ''/admin''), (''post'', ''/scoped'')] \<and>
   (\<exists>cfg. ParseConfig (\<lambda>p. Inr []) (\<lambda>d. Inr basicSpec) inSourceOrder [] = Inr cfg \<and>
      dom (Policies cfg) =
        {\<lparr>Method = ''GET'', Path = ''/public''\<rparr>, \<lparr>Method = ''GET'', Path = ''/user''\<rparr>,
         \<lparr>Method = ''DELETE'', Path = ''/admin''\<rparr>, \<lparr>Method = ''POST'', Path = ''/scoped''\<rparr>} \<and>
      card (dom (Policies cfg)) = 4)"
proof -
  have dp: "distinct (map fst (Paths basicSpec))"
    by (simp add: basicSpec_def)
  from ParseConfig_basicSpec obtain cfg where
    c: "ParseConfig (\<lambda>p. Inr []) (\<lambda>d. Inr basicSpec) inSourceOrder [] = Inr cfg"
    by blast
  note t = declared_operations_are_the_keys
    [where readFile = "\<lambda>p. Inr []" and unmarshal = "\<lambda>d. Inr basicSpec" and order = inSourceOrder
       and path = "[]" and data = "[]" and root = basicSpec and cfg = cfg, OF c refl refl]
  from t have "dom (Policies cfg) = keyOf ` set (declared basicSpec)" by blast
  then have d: "dom (Policies cfg) =
        {\<lparr>Method = ''GET'', Path = ''/public''\<rparr>, \<lparr>Method = ''GET'', Path = ''/user''\<rparr>,
         \<lparr>Method = ''DELETE'', Path = ''/admin''\<rparr>, \<lparr>Method = ''POST'', Path = ''/scoped''\<rparr>}"
    by (simp add: declared_basicSpec keyOf_def toUpper_methods)
  from t dp have "card (dom (Policies cfg)) = length (declared basicSpec)" by blast
  then have n: "card (dom (Policies cfg)) = 4" by (simp add: declared_basicSpec)
  from dp declared_basicSpec c d n show ?thesis by blast
qed

section \<open>Tokens of other schemes\<close>

lemma same_bearer_tokens:
  "list_all2 sameRequirement sec sec' \<Longrightarrow>
   map_of (concat sec) ''BearerAuth'' = map_of (concat sec') ''BearerAuth''"
proof (induction rule: list_all2_induct)
  case Nil
  show ?case by simp
next
  case (Cons req sec req' sec')
  from Cons.hyps(1) have "map_of req ''BearerAuth'' = map_of req' ''BearerAuth''"
    by (simp add: sameRequirement_def)
  with Cons.IH show ?case by (simp add: map_add_def split: option.splits)
qed

lemma same_effectiveSecurity:
  assumes "sameSecurity (openapiRoot.Security r) (openapiRoot.Security r')"
    and "sameSecurity (operation.Security x) (operation.Security y)"
  shows "sameSecurity (effectiveSecurity r x) (effectiveSecurity r' y)"
proof (cases "operation.Security x")
  case None
  with assms(2) have "operation.Security y = None" by (simp add: sameSecurity_def)
  with None assms(1) show ?thesis by (simp add: effectiveSecurity_def)
next
  case (Some s)
  with assms(2) obtain s' where "operation.Security y = Some s'"
    by (cases "operation.Security y") (simp_all add: sameSecurity_def)
  with Some assms(2) show ?thesis by (simp add: effectiveSecurity_def)
qed

lemma same_derivePolicy:
  assumes "sameSecurity (effectiveSecurity r x) (effectiveSecurity r' y)"
  shows "derivePolicy r x = derivePolicy r' y"
proof (cases "effectiveSecurity r x")
  case None
  with assms have "effectiveSecurity r' y = None" by (simp add: sameSecurity_def)
  with None show ?thesis by (simp add: derivePolicy_cases)
next
  case (Some sec)
  with assms obtain sec' where s': "effectiveSecurity r' y = Some sec'"
    and rel: "list_all2 sameRequirement sec sec'"
    by (cases "effectiveSecurity r' y") (simp_all add: sameSecurity_def)
  from rel have len: "length sec = length sec'" by (rule list_all2_lengthD)
  show ?thesis
  proof (cases sec)
    case Nil
    with len have "sec' = []" by simp
    with Nil Some s' show ?thesis by (simp add: derivePolicy_cases)
  next
    case (Cons q qs)
    with len obtain q' qs' where c': "sec' = q' # qs'" by (cases sec') simp_all
    have "scanRequirements sec publicPolicy = scanRequirements sec' publicPolicy"
      using same_bearer_tokens [OF rel] by (simp add: scanRequirements_map_of)
    with Cons c' Some s' show ?thesis by (simp add: derivePolicy_cases)
  qed
qed

lemma sameOperation_None: "sameOperation f f' \<Longrightarrow> (f = None) = (f' = None)"
  by (cases f; cases f') (simp_all add: sameOperation_def)

lemma same_Operations:
  assumes "samePathItem it it'"
  shows "rel_option sameOperation (Operations it k) (Operations it' k)"
proof -
  from assms have s: "sameOperation (Get it) (Get it')" "sameOperation (Post it) (Post it')"
    "sameOperation (Put it) (Put it')" "sameOperation (Delete it) (Delete it')"
    "sameOperation (Patch it) (Patch it')" "sameOperation (Options it) (Options it')"
    "sameOperation (Head it) (Head it')"
    by (simp_all add: samePathItem_def)
  note n = s [THEN sameOperation_None]
  from s show ?thesis by (simp add: Operations_apply n)
qed

lemma same_visitedIn_rangeMap:
  assumes "\<And>k. rel_option sameOperation (M k) (M' k)"
  shows "list_all2 (\<lambda>a b. fst a = fst b \<and>
            sameSecurity (operation.Security (snd a)) (operation.Security (snd b)))
          (visitedIn rawPath (rangeMap ks M)) (visitedIn rawPath (rangeMap ks M'))"
proof (induction ks)
  case Nil
  show ?case by (simp add: rangeMap_def visitedIn_def)
next
  case (Cons k ks)
  have split: "visitedIn rawPath (rangeMap (k # ks) N) =
      visitedIn rawPath (rangeMap [k] N) @ visitedIn rawPath (rangeMap ks N)" for N
    by (simp add: rangeMap_def visitedIn_def)
  have one: "list_all2 (\<lambda>a b. fst a = fst b \<and>
            sameSecurity (operation.Security (snd a)) (operation.Security (snd b)))
          (visitedIn rawPath (rangeMap [k] M)) (visitedIn rawPath (rangeMap [k] M'))"
  proof (cases "M k")
    case None
    with assms [of k] have "M' k = None" by simp
    with None show ?thesis by (simp add: rangeMap_def visitedIn_def)
  next
    case (Some f)
    with assms [of k] obtain f' where f': "M' k = Some f'" and so: "sameOperation f f'"
      by (cases "M' k") simp_all
    show ?thesis
    proof (cases f)
      case None
      with so have "f' = None" by (simp add: sameOperation_def)
      with None Some f' show ?thesis by (simp add: rangeMap_def visitedIn_def)
    next
      case (Some x)
      with so obtain y where "f' = Some y"
        and "sameSecurity (operation.Security x) (operation.Security y)"
        by (cases f') (simp_all add: sameOperation_def)
      with Some \<open>M k = Some f\<close> f' show ?thesis by (simp add: rangeMap_def visitedIn_def)
    qed
  qed
  from one Cons.IH show ?case by (simp only: split list_all2_appendI)
qed

lemma same_visitedIn:
  assumes "samePathItem it it'"
  shows "list_all2 (\<lambda>a b. fst a = fst b \<and>
            sameSecurity (operation.Security (snd a)) (operation.Security (snd b)))
          (visitedIn rawPath (rangeMap ks (Operations it)))
          (visitedIn rawPath (rangeMap ks (Operations it')))"
  by (rule same_visitedIn_rangeMap) (rule same_Operations [OF assms])

lemma same_visited:
  assumes "list_all2 (\<lambda>(p, it) (p', it'). p = p' \<and> rel_option samePathItem it it') ps ps'"
  shows "list_all2 (\<lambda>a b. fst a = fst b \<and>
            sameSecurity (operation.Security (snd a)) (operation.Security (snd b)))
          (visited order ps) (visited order ps')"
  using assms
proof (induction rule: list_all2_induct)
  case Nil
  show ?case by (simp add: visited_def)
next
  case (Cons x ps x' ps')
  obtain p item where x: "x = (p, item)" by (cases x)
  obtain p' item' where x': "x' = (p', item')" by (cases x')
  from Cons.hyps(1) x x' have pp: "p' = p" and ri: "rel_option samePathItem item item'"
    by simp_all
  show ?case
  proof (cases item)
    case None
    with ri have "item' = None" by simp
    with None x x' pp Cons.IH show ?thesis by (simp add: visited_Cons_None)
  next
    case (Some it)
    with ri obtain it' where i': "item' = Some it'" and s: "samePathItem it it'"
      by (cases item') simp_all
    from same_visitedIn [OF s, of p "keys (order p)"] Cons.IH Some i' x x' pp
    show ?thesis by (simp add: visited_Cons_Some list_all2_appendI)
  qed
qed

lemma same_resolveAll:
  assumes "sameSecurity (openapiRoot.Security r) (openapiRoot.Security r')"
    and "list_all2 (\<lambda>a b. fst a = fst b \<and>
            sameSecurity (operation.Security (snd a)) (operation.Security (snd b))) xs ys"
  shows "resolveAll r xs m = resolveAll r' ys m"
  using assms(2)
proof (induction arbitrary: m rule: list_all2_induct)
  case Nil
  show ?case by simp
next
  case (Cons a xs b ys)
  obtain k x where a: "a = (k, x)" by (cases a)
  obtain k' y where b: "b = (k', y)" by (cases b)
  from Cons.hyps(1) a b have kk: "k' = k"
    and s: "sameSecurity (operation.Security x) (operation.Security y)"
    by simp_all
  have d: "derivePolicy r x = derivePolicy r' y"
    by (rule same_derivePolicy) (rule same_effectiveSecurity [OF assms(1) s])
  show ?case
  proof (cases "derivePolicy r x")
    case (Inl err)
    with d have "derivePolicy r' y = Inl err" by simp
    with Inl a b kk show ?thesis by simp
  next
    case (Inr policy)
    with d have "derivePolicy r' y = Inr policy" by simp
    with Inr a b kk Cons.IH show ?thesis by (simp del: fun_upd_apply)
  qed
qed

lemma distinct_visitedIn_rangeMap:
  "distinct ks \<Longrightarrow> distinct (map fst (visitedIn rawPath (rangeMap ks m)))"
  by (simp add: keys_visitedIn_rangeMap distinct_map inj_on_def)

lemma inner_order_immaterial:
  "(\<exists>m'. resolveAll r (visited order ps) m = Inr m' \<and>
         resolveAll r (visited order' ps) m = Inr m') \<or>
   (\<exists>e e'. resolveAll r (visited order ps) m = Inl e \<and>
           resolveAll r (visited order' ps) m = Inl e')"
proof (induction ps arbitrary: m)
  case Nil
  show ?case by (simp add: visited_def)
next
  case (Cons x ps)
  obtain rawPath item where x: "x = (rawPath, item)" by (cases x)
  show ?case
  proof (cases item)
    case None
    with x Cons.IH [of m] show ?thesis by (simp add: visited_Cons_None)
  next
    case (Some it)
    let ?xs = "visitedIn rawPath (rangeMap (keys (order rawPath)) (Operations it))"
    let ?ys = "visitedIn rawPath (rangeMap (keys (order' rawPath)) (Operations it))"
    have dx: "distinct (map fst ?xs)" and dy: "distinct (map fst ?ys)"
      by (simp_all add: distinct_visitedIn_rangeMap keys_methodOrder)
    have st: "set ?xs = set ?ys"
      by (simp add: set_visitedIn_rangeMap keys_methodOrder)
    show ?thesis
    proof (cases "resolveAll r ?xs m")
      case (Inl e)
      from visit_order_error [OF st Inl] obtain e' where "resolveAll r ?ys m = Inl e'" ..
      with Inl x Some show ?thesis by (simp add: visited_Cons_Some resolveAll_append)
    next
      case (Inr m1)
      from visit_order_immaterial [OF dx dy st Inr] have "resolveAll r ?ys m = Inr m1" .
      with Inr x Some Cons.IH [of m1] show ?thesis
        by (simp add: visited_Cons_Some resolveAll_append)
    qed
  qed
qed

text \<open>
  C10. Two documents that differ only in the token lists of schemes other than
  \<^verbatim>\<open>BearerAuth\<close> (the requirement objects correspond one to one, name the same schemes
  and give \<^verbatim>\<open>BearerAuth\<close> the same tokens) get the same result from \<^verbatim>\<open>ParseConfig\<close>: the
  same \<^verbatim>\<open>Config\<close>, or an error for both, whatever orders the ranges of the two runs take.
  With the operations visited in the same order the two results are equal, the errors
  as well.
\<close>

theorem other_tokens_do_not_interfere:
  assumes "sameDocument r r'"
    and "readFile path = Inr data" and "unmarshal data = Inr r"
    and "readFile path' = Inr data'" and "unmarshal data' = Inr r'"
  shows "ParseConfig readFile unmarshal order path = ParseConfig readFile unmarshal order path' \<and>
         ((\<exists>cfg. ParseConfig readFile unmarshal order path = Inr cfg \<and>
                 ParseConfig readFile unmarshal order' path' = Inr cfg) \<or>
          (\<exists>e e'. ParseConfig readFile unmarshal order path = Inl e \<and>
                  ParseConfig readFile unmarshal order' path' = Inl e'))"
proof -
  from assms(1) have s: "sameSecurity (openapiRoot.Security r) (openapiRoot.Security r')"
    and p: "list_all2 (\<lambda>(p, it) (p', it'). p = p' \<and> rel_option samePathItem it it')
              (Paths r) (Paths r')"
    by (simp_all add: sameDocument_def)
  have same: "resolveAll r (visited q (Paths r)) Map.empty =
      resolveAll r' (visited q (Paths r')) Map.empty" for q
    using s same_visited [OF p] by (rule same_resolveAll)
  from same [of order] assms(2-5)
  have eq: "ParseConfig readFile unmarshal order path = ParseConfig readFile unmarshal order path'"
    by (simp add: ParseConfig_loaded)
  from inner_order_immaterial [of r order "Paths r" Map.empty order']
  have "(\<exists>m'. resolveAll r (visited order (Paths r)) Map.empty = Inr m' \<and>
              resolveAll r' (visited order' (Paths r')) Map.empty = Inr m') \<or>
        (\<exists>e e'. resolveAll r (visited order (Paths r)) Map.empty = Inl e \<and>
                resolveAll r' (visited order' (Paths r')) Map.empty = Inl e')"
    by (simp only: same [of order'])
  then have either: "(\<exists>cfg. ParseConfig readFile unmarshal order path = Inr cfg \<and>
                 ParseConfig readFile unmarshal order' path' = Inr cfg) \<or>
          (\<exists>e e'. ParseConfig readFile unmarshal order path = Inl e \<and>
                  ParseConfig readFile unmarshal order' path' = Inl e')"
  proof
    assume "\<exists>m'. resolveAll r (visited order (Paths r)) Map.empty = Inr m' \<and>
              resolveAll r' (visited order' (Paths r')) Map.empty = Inr m'"
    then obtain m' where "resolveAll r (visited order (Paths r)) Map.empty = Inr m'"
      and "resolveAll r' (visited order' (Paths r')) Map.empty = Inr m'"
      by blast
    with assms(2-5) show ?thesis by (simp add: ParseConfig_loaded)
  next
    assume "\<exists>e e'. resolveAll r (visited order (Paths r)) Map.empty = Inl e \<and>
                resolveAll r' (visited order' (Paths r')) Map.empty = Inl e'"
    then obtain e e' where "resolveAll r (visited order (Paths r)) Map.empty = Inl e"
      and "resolveAll r' (visited order' (Paths r')) Map.empty = Inl e'"
      by blast
    with assms(2-5) show ?thesis by (simp add: ParseConfig_loaded)
  qed
  from eq either show ?thesis by blast
qed

lemma sameDocument_mixedSpec: "sameDocument (mixedSpec [''read'']) (mixedSpec [''write'', ''admin''])"
  by (simp add: sameDocument_def sameSecurity_def sameOperation_def samePathItem_def
        sameRequirement_def mixedSpec_def emptyItem_def)

theorem other_tokens_do_not_interfere_witness:
  "sameDocument (mixedSpec [''read'']) (mixedSpec [''write'', ''admin'']) \<and>
   mixedSpec [''read''] \<noteq> mixedSpec [''write'', ''admin''] \<and>
   ParseConfig (\<lambda>p. Inr p)
     (\<lambda>d. if d = ''a'' then Inr (mixedSpec [''read'']) else Inr (mixedSpec [''write'', ''admin'']))
     inSourceOrder ''a'' =
   ParseConfig (\<lambda>p. Inr p)
     (\<lambda>d. if d = ''a'' then Inr (mixedSpec [''read'']) else Inr (mixedSpec [''write'', ''admin'']))
     inSourceOrder ''b'' \<and>
   ParseConfig (\<lambda>p. Inr p)
     (\<lambda>d. if d = ''a'' then Inr (mixedSpec [''read'']) else Inr (mixedSpec [''write'', ''admin'']))
     inSourceOrder ''a'' =
     Inr \<lparr>Policies = [\<lparr>Method = ''GET'', Path = ''/mixed''\<rparr> \<mapsto>
            \<lparr>RequireAuth = True, Roles = [''admin''], Scopes = []\<rparr>]\<rparr> \<and>
   ParseConfig (\<lambda>p. Inr p)
     (\<lambda>d. if d = ''a'' then Inr (mixedSpec [''read'']) else Inr (mixedSpec [''write'', ''admin'']))
     postFirst ''b'' =
     Inr \<lparr>Policies = [\<lparr>Method = ''GET'', Path = ''/mixed''\<rparr> \<mapsto>
            \<lparr>RequireAuth = True, Roles = [''admin''], Scopes = []\<rparr>]\<rparr>"
proof -
  let ?A = "mixedSpec [''read'']"
  let ?B = "mixedSpec [''write'', ''admin'']"
  let ?rf = "\<lambda>p. Inr p :: string + string"
  let ?um = "\<lambda>d. if d = ''a'' then Inr ?A else Inr ?B :: string + openapiRoot"
  let ?cfg = "\<lparr>Policies = [\<lparr>Method = ''GET'', Path = ''/mixed''\<rparr> \<mapsto>
            \<lparr>RequireAuth = True, Roles = [''admin''], Scopes = []\<rparr>]\<rparr>"
  have h2: "?rf ''a'' = Inr ''a''" by simp
  have h3: "?um ''a'' = Inr ?A" by simp
  have h4: "?rf ''b'' = Inr ''b''" by simp
  have h5: "?um ''b'' = Inr ?B" by simp
  have ne: "?A \<noteq> ?B" by (simp add: mixedSpec_def)
  have v: "ParseConfig ?rf ?um inSourceOrder ''a'' = Inr ?cfg"
    by (simp add: ParseConfig_def mixedSpec_def example_ranges
          derivePolicy_def effectiveSecurity_def publicPolicy_def del: fun_upd_apply)
  note t = other_tokens_do_not_interfere
    [where readFile = ?rf and unmarshal = ?um and path = "''a''" and path' = "''b''"
       and data = "''a''" and data' = "''b''" and r = ?A and r' = ?B
       and order = inSourceOrder and order' = postFirst,
     OF sameDocument_mixedSpec h2 h3 h4 h5]
  from t have eq: "ParseConfig ?rf ?um inSourceOrder ''a'' = ParseConfig ?rf ?um inSourceOrder ''b''"
    by blast
  from t v have w: "ParseConfig ?rf ?um postFirst ''b'' = Inr ?cfg"
    by auto
  from sameDocument_mixedSpec ne eq v w show ?thesis by blast
qed

section \<open>Facts about the serializer\<close>

lemma routeOrder_inj_on:
  assumes "distinct (map fst es)"
  shows "inj_on routeOrder (set es)"
proof (rule inj_onI)
  fix a b
  assume a: "a \<in> set es" and b: "b \<in> set es" and eq: "routeOrder a = routeOrder b"
  from eq have "Method (fst a) = Method (fst b)" and "Path (fst a) = Path (fst b)"
    by (simp_all add: routeOrder_def)
  then have k: "fst a = fst b" by simp
  from a have "(fst a, snd a) \<in> set es" by simp
  moreover from b k have "(fst a, snd b) \<in> set es" by (metis prod.collapse)
  ultimately have "(fst a, snd a) \<in> set es" and "(fst a, snd b) \<in> set es" by simp_all
  with assms have "snd a = snd b" by (rule eq_key_imp_eq_value)
  with k show "a = b" by (simp add: prod_eq_iff)
qed

lemma sortEntries_unique:
  assumes "distinct (map fst es)" and "distinct (map fst es')" and "set es = set es'"
  shows "sortEntries es = sortEntries es'"
proof -
  have inj: "inj_on routeOrder (set es)" using assms(1) by (rule routeOrder_inj_on)
  from assms(1) have d: "distinct es" by (simp add: distinct_map)
  from assms(2) have d': "distinct es'" by (simp add: distinct_map)
  show ?thesis
    unfolding sortEntries_def
  proof (rule map_sorted_distinct_set_unique [where f = routeOrder])
    show "inj_on routeOrder (set (sort_key routeOrder es) \<union> set (sort_key routeOrder es'))"
      using inj assms(3) by simp
    show "sorted (map routeOrder (sort_key routeOrder es))" by (rule sorted_sort_key)
    show "sorted (map routeOrder (sort_key routeOrder es'))" by (rule sorted_sort_key)
    show "distinct (map routeOrder (sort_key routeOrder es))"
      using inj d by (simp add: distinct_map)
    show "distinct (map routeOrder (sort_key routeOrder es'))"
      using inj d' assms(3) by (simp add: distinct_map)
    show "set (sort_key routeOrder es) = set (sort_key routeOrder es')"
      using assms(3) by simp
  qed
qed

lemma sortEntries_strict:
  assumes "distinct (map fst es)"
  shows "sorted_wrt (<) (map routeOrder (sortEntries es))"
proof -
  have inj: "inj_on routeOrder (set es)" using assms by (rule routeOrder_inj_on)
  from assms have d: "distinct es" by (simp add: distinct_map)
  have "sorted (map routeOrder (sortEntries es))"
    unfolding sortEntries_def by (rule sorted_sort_key)
  moreover have "distinct (map routeOrder (sortEntries es))"
    using inj d by (simp add: sortEntries_def distinct_map)
  ultimately show ?thesis by (simp add: strict_sorted_iff)
qed

text \<open>
  C8. The text that the serializer produces for a \<^verbatim>\<open>Config\<close> and a namespace identifier
  does not depend on the order in which the mapping yields its entries: any two
  enumerations of the same mapping give the same result. The entries are emitted in
  strictly increasing order of their keys, compared by method and, for equal methods, by
  path, each as a byte string in lexicographic order; every entry of the mapping is
  emitted.
\<close>

theorem Generate_is_deterministic:
  assumes "distinct (map fst es)" and "distinct (map fst es')"
    and "map_of es = Policies cfg" and "map_of es' = Policies cfg"
  shows "Generate pkg es = Generate pkg es' \<and>
         sortEntries es = sortEntries es' \<and>
         set (sortEntries es) = set es \<and>
         sorted_wrt (<) (map routeOrder (sortEntries es)) \<and>
         (routeOrder a < routeOrder b \<longleftrightarrow>
            Method (fst a) < Method (fst b) \<or>
            (Method (fst a) = Method (fst b) \<and> Path (fst a) < Path (fst b))) \<and>
         (validIdentifier pkg \<longrightarrow>
            Generate pkg es =
              Inr (header pkg @ concat (map renderEntry (sortEntries es)) @ ''}'' @ [CHR 0x0A])) \<and>
         (\<not> validIdentifier pkg \<longrightarrow> (\<exists>msg. Generate pkg es = Inl msg))"
proof -
  from assms(3,4) have "map_of es = map_of es'" by simp
  with assms(1,2) have s: "set es = set es'" by (simp add: map_of_inject_set)
  have u: "sortEntries es = sortEntries es'"
    using assms(1,2) s by (rule sortEntries_unique)
  then have g: "Generate pkg es = Generate pkg es'" by (simp add: Generate_def)
  have m: "set (sortEntries es) = set es" by (simp add: sortEntries_def)
  have st: "sorted_wrt (<) (map routeOrder (sortEntries es))"
    using assms(1) by (rule sortEntries_strict)
  have ord: "routeOrder a < routeOrder b \<longleftrightarrow>
            Method (fst a) < Method (fst b) \<or>
            (Method (fst a) = Method (fst b) \<and> Path (fst a) < Path (fst b))"
    by (auto simp: routeOrder_def)
  have v: "validIdentifier pkg \<longrightarrow>
            Generate pkg es =
              Inr (header pkg @ concat (map renderEntry (sortEntries es)) @ ''}'' @ [CHR 0x0A])"
    by (simp add: Generate_def)
  have n: "\<not> validIdentifier pkg \<longrightarrow> (\<exists>msg. Generate pkg es = Inl msg)"
    by (simp add: Generate_def)
  from g u m st ord v n show ?thesis by blast
qed

lemma distinct_goldenEntries: "distinct (map fst goldenEntries)"
  by (simp add: goldenEntries_def)

lemma sortEntries_goldenEntries:
  "map fst (sortEntries goldenEntries) =
     [\<lparr>Method = ''DELETE'', Path = ''/admin''\<rparr>, \<lparr>Method = ''GET'', Path = ''/public''\<rparr>,
      \<lparr>Method = ''GET'', Path = ''/user''\<rparr>, \<lparr>Method = ''POST'', Path = ''/scoped''\<rparr>]"
  by (simp add: sortEntries_def goldenEntries_def routeOrder_def)

theorem Generate_is_deterministic_witness:
  "distinct (map fst goldenEntries) \<and> distinct (map fst (rev goldenEntries)) \<and>
   map_of (rev goldenEntries) = map_of goldenEntries \<and>
   validIdentifier ''httproutes'' \<and> \<not> validIdentifier ''http routes'' \<and>
   Generate ''httproutes'' goldenEntries = Generate ''httproutes'' (rev goldenEntries) \<and>
   sortEntries goldenEntries = sortEntries (rev goldenEntries) \<and>
   map fst (sortEntries goldenEntries) =
     [\<lparr>Method = ''DELETE'', Path = ''/admin''\<rparr>, \<lparr>Method = ''GET'', Path = ''/public''\<rparr>,
      \<lparr>Method = ''GET'', Path = ''/user''\<rparr>, \<lparr>Method = ''POST'', Path = ''/scoped''\<rparr>] \<and>
   (\<exists>out. Generate ''httproutes'' goldenEntries = Inr out) \<and>
   (\<exists>msg. Generate ''http routes'' goldenEntries = Inl msg)"
proof -
  let ?cfg = "\<lparr>Policies = map_of goldenEntries\<rparr>"
  have d: "distinct (map fst goldenEntries)" by (rule distinct_goldenEntries)
  then have d': "distinct (map fst (rev goldenEntries))" by (simp add: rev_map [symmetric])
  have "set (rev goldenEntries) = set goldenEntries" by simp
  with d d' have mo: "map_of (rev goldenEntries) = map_of goldenEntries"
    by (simp add: map_of_inject_set)
  have h3: "map_of goldenEntries = Policies ?cfg" by simp
  have h4: "map_of (rev goldenEntries) = Policies ?cfg" using mo by simp
  have ok: "validIdentifier ''httproutes''"
    by (simp add: validIdentifier_def identStart_def identChar_def)
  have bad: "\<not> validIdentifier ''http routes''"
    by (simp add: validIdentifier_def identStart_def identChar_def)
  note t = Generate_is_deterministic [OF d d' h3 h4]
  from t [of "''httproutes''"] have g: "Generate ''httproutes'' goldenEntries =
      Generate ''httproutes'' (rev goldenEntries)"
    by blast
  from t [of "''httproutes''"] have u: "sortEntries goldenEntries = sortEntries (rev goldenEntries)"
    by blast
  from t [of "''httproutes''"] ok have o: "\<exists>out. Generate ''httproutes'' goldenEntries = Inr out"
    by blast
  from t [of "''http routes''"] bad have b: "\<exists>msg. Generate ''http routes'' goldenEntries = Inl msg"
    by blast
  from d d' mo ok bad g u sortEntries_goldenEntries o b show ?thesis by blast
qed


end
